theory Spec2Isabelle
  imports Main "HOL-Library.Sublist"
begin

section \<open>The lexical grammar layer of xmldom (\<^verbatim>\<open>src/mjs/grammar.mjs\<close>)\<close>

text \<open>
  The module builds regular expressions by gluing pattern text together and handing the
  text to the \<^verbatim>\<open>RegExp\<close> constructor of the JavaScript runtime. The embedding therefore
  has two parts: a model of the runtime (strings, the pattern parser, the backtracking
  matcher of ECMA-262, \<^verbatim>\<open>exec\<close>), and on top of it the functions and productions of
  \<^verbatim>\<open>grammar.mjs\<close>, translated one by one.
\<close>

subsection \<open>JavaScript strings\<close>

text \<open>
  A JavaScript string is a sequence of UTF-16 code units; a code unit is a number below
  \<open>0x10000\<close>. \<open>js\<close> embeds an ASCII literal, \<open>bsl\<close> the same literal after a backslash
  (a backslash cannot be written inside an Isabelle string literal).
\<close>

type_synonym jsstring = "nat list"

definition js :: "string \<Rightarrow> jsstring" where
  "js s = map of_char s"

definition bsl :: "string \<Rightarrow> jsstring" where
  "bsl s = 0x5C # map of_char s"

fun starts_with :: "'a list \<Rightarrow> 'a list \<Rightarrow> bool" where
  "starts_with [] s = True"
| "starts_with (p # ps) [] = False"
| "starts_with (p # ps) (x # xs) = (p = x \<and> starts_with ps xs)"

text \<open>The position of the first (last) occurrence of \<open>t\<close> in \<open>s\<close>.\<close>

fun find_sub :: "'a list \<Rightarrow> 'a list \<Rightarrow> nat option" where
  "find_sub t [] = (if t = [] then Some 0 else None)"
| "find_sub t (x # xs) =
     (if starts_with t (x # xs) then Some 0 else map_option Suc (find_sub t xs))"

fun find_last_sub :: "'a list \<Rightarrow> 'a list \<Rightarrow> nat option" where
  "find_last_sub t [] = (if t = [] then Some 0 else None)"
| "find_last_sub t (x # xs) =
     (case find_last_sub t xs of
        Some i \<Rightarrow> Some (Suc i)
      | None \<Rightarrow> if starts_with t (x # xs) then Some 0 else None)"

text \<open>\<^verbatim>\<open>String.prototype.indexOf\<close> and \<^verbatim>\<open>lastIndexOf\<close>: \<open>-1\<close> when there is no occurrence.\<close>

definition indexOf :: "jsstring \<Rightarrow> jsstring \<Rightarrow> int" where
  "indexOf s t = (case find_sub t s of None \<Rightarrow> - 1 | Some i \<Rightarrow> int i)"

definition lastIndexOf :: "jsstring \<Rightarrow> jsstring \<Rightarrow> int" where
  "lastIndexOf s t = (case find_last_sub t s of None \<Rightarrow> - 1 | Some i \<Rightarrow> int i)"

text \<open>\<^verbatim>\<open>String.prototype.slice(start, end)\<close>: a negative index counts from the end.\<close>

definition slice :: "jsstring \<Rightarrow> int \<Rightarrow> int \<Rightarrow> jsstring" where
  "slice s start fin =
     (let len = int (length s);
          from = (if start < 0 then max (len + start) 0 else min start len);
          to = (if fin < 0 then max (len + fin) 0 else min fin len)
      in take (nat (to - from)) (drop (nat from) s))"

text \<open>
  \<^verbatim>\<open>String.prototype.replace(search, replacement)\<close> with a string \<open>search\<close>: the first
  occurrence is replaced. The only replacement text in the module is the empty string,
  so the \<^verbatim>\<open>$\<close> patterns of replacement texts do not arise.
\<close>

definition replace :: "jsstring \<Rightarrow> jsstring \<Rightarrow> jsstring \<Rightarrow> jsstring" where
  "replace s t rep =
     (case find_sub t s of
        None \<Rightarrow> s
      | Some i \<Rightarrow> take i s @ rep @ drop (i + length t) s)"

text \<open>\<open>s[i]\<close>: \<open>None\<close> stands for \<^verbatim>\<open>undefined\<close>.\<close>

definition char_at :: "jsstring \<Rightarrow> nat \<Rightarrow> nat option" where
  "char_at s i = (if i < length s then Some (s ! i) else None)"

text \<open>
  \<^verbatim>\<open>StringToCodePoints\<close> and \<^verbatim>\<open>CodePointsToString\<close> of ECMA-262: a lead surrogate
  followed by a trail surrogate is one code point, every other code unit is a code point of
  its own.
\<close>

fun decode :: "jsstring \<Rightarrow> nat list" where
  "decode (a # b # cs) =
     (if 0xD800 \<le> a \<and> a \<le> 0xDBFF \<and> 0xDC00 \<le> b \<and> b \<le> 0xDFFF
      then ((a - 0xD800) * 0x400 + (b - 0xDC00) + 0x10000) # decode cs
      else a # decode (b # cs))"
| "decode cs = cs"

fun encode :: "nat list \<Rightarrow> jsstring" where
  "encode [] = []"
| "encode (cp # cps) =
     (if cp \<le> 0xFFFF then cp # encode cps
      else (0xD800 + (cp - 0x10000) div 0x400) # (0xDC00 + (cp - 0x10000) mod 0x400) # encode cps)"

subsection \<open>The runtime's regular expressions: syntax\<close>

text \<open>
  The fragment of the ECMA-262 pattern language that \<^verbatim>\<open>grammar.mjs\<close> uses: pattern
  characters, the escapes \<^verbatim>\<open>\xHH\<close>, \<^verbatim>\<open>\uHHHH\<close>, \<^verbatim>\<open>\u{H..}\<close> (unicode mode), \<^verbatim>\<open>\d\<close>, control
  escapes and escaped syntax characters, character classes with ranges and negation,
  \<^verbatim>\<open>.\<close>, \<^verbatim>\<open>^\<close>, \<^verbatim>\<open>$\<close>, alternation, the quantifiers \<^verbatim>\<open>*\<close> \<^verbatim>\<open>+\<close> \<^verbatim>\<open>?\<close> and their lazy forms,
  groups \<^verbatim>\<open>(..)\<close>, \<^verbatim>\<open>(?:..)\<close>, \<^verbatim>\<open>(?<name>..)\<close>.

  Reading a pattern has three outcomes: \<open>Ok\<close> with the result; \<open>Invalid\<close>, the text is no
  pattern and the constructor throws a \<^verbatim>\<open>SyntaxError\<close>; \<open>Unsupported\<close>, the text uses a
  construct outside the fragment and the model says nothing about it.
\<close>

datatype 'a res = Ok 'a | Invalid | Unsupported

datatype regex =
    Empty
  | Lit nat
  | CharSet bool "(nat \<times> nat) list"
  | LineStart
  | LineEnd
  | Seq regex regex
  | Alt regex regex
  | Repeat regex nat "nat option" bool
  | Group nat regex

definition ok_cons :: "'a \<Rightarrow> 'a list res \<Rightarrow> 'a list res" where
  "ok_cons x r = (case r of Ok xs \<Rightarrow> Ok (x # xs) | Invalid \<Rightarrow> Invalid | Unsupported \<Rightarrow> Unsupported)"

definition is_hex :: "nat \<Rightarrow> bool" where
  "is_hex c = ((0x30 \<le> c \<and> c \<le> 0x39) \<or> (0x41 \<le> c \<and> c \<le> 0x46) \<or> (0x61 \<le> c \<and> c \<le> 0x66))"

definition hexval :: "nat \<Rightarrow> nat" where
  "hexval c = (if c \<le> 0x39 then c - 0x30 else if c \<le> 0x46 then c - 0x37 else c - 0x57)"

definition hexnum :: "nat list \<Rightarrow> nat" where
  "hexnum ds = foldl (\<lambda>v d. 16 * v + hexval d) 0 ds"

text \<open>
  First pass: escape sequences. \<open>Raw c\<close> is an unescaped character, \<open>Esc c\<close> a backslash
  followed by the single character \<open>c\<close>, \<open>Code v\<close> the character with code \<open>v\<close> written
  as \<^verbatim>\<open>\xHH\<close>, \<^verbatim>\<open>\uHHHH\<close> or \<^verbatim>\<open>\u{H..}\<close>. A backslash at the end of the pattern is
  invalid. In unicode mode a lead surrogate escape followed by another \<^verbatim>\<open>\u\<close> escape
  would form one code point; that is left outside the fragment.
\<close>

datatype ptoken = Raw nat | Esc nat | Code nat

datatype umode = UNormal | UBrace "nat list"

fun unescape :: "bool \<Rightarrow> umode \<Rightarrow> nat list \<Rightarrow> ptoken list res" where
  "unescape u UNormal [] = Ok []"
| "unescape u (UBrace ds) [] = Invalid"
| "unescape u (UBrace ds) (c # cs) =
    (if is_hex c then unescape u (UBrace (ds @ [c])) cs
     else if c = 0x7D \<and> ds \<noteq> [] \<and> hexnum ds \<le> 0x10FFFF
       then ok_cons (Code (hexnum ds)) (unescape u UNormal cs)
     else Invalid)"
| "unescape u UNormal (c # cs) =
    (if c \<noteq> 0x5C then ok_cons (Raw c) (unescape u UNormal cs)
     else case cs of
       [] \<Rightarrow> Invalid
     | e # cs1 \<Rightarrow>
        if e = 0x78 then
          (case cs1 of
             h1 # h2 # cs2 \<Rightarrow>
               if is_hex h1 \<and> is_hex h2
               then ok_cons (Code (hexnum [h1, h2])) (unescape u UNormal cs2)
               else Unsupported
           | _ \<Rightarrow> Unsupported)
        else if e = 0x75 then
          (case cs1 of
             h1 # cs2 \<Rightarrow>
               if h1 = 0x7B then (if u then unescape u (UBrace []) cs2 else Unsupported)
               else
                 (case cs2 of
                    h2 # h3 # h4 # cs3 \<Rightarrow>
                      if is_hex h1 \<and> is_hex h2 \<and> is_hex h3 \<and> is_hex h4
                      then (if u \<and> 0xD800 \<le> hexnum [h1, h2, h3, h4]
                               \<and> hexnum [h1, h2, h3, h4] \<le> 0xDBFF
                               \<and> take 2 cs3 = [0x5C, 0x75]
                            then Unsupported
                            else ok_cons (Code (hexnum [h1, h2, h3, h4])) (unescape u UNormal cs3))
                      else Unsupported
                  | _ \<Rightarrow> Unsupported)
           | [] \<Rightarrow> Unsupported)
        else ok_cons (Esc e) (unescape u UNormal cs1))"

text \<open>
  Second pass: character classes, group openers and operators.
  A class is read atom by atom (\<open>cstate\<close>): \<open>CAtom a\<close> holds the last atom, which a
  following \<^verbatim>\<open>-\<close> may turn into the start of a range (\<open>CDash a\<close>). A range whose bounds are
  out of order is invalid; a class that is not closed is invalid; \<^verbatim>\<open>]\<close> outside a class is
  a literal character, except in unicode mode where it is invalid.
\<close>

datatype token = TLit nat | TSet bool "(nat \<times> nat) list" | TCaret | TDollar | TBar
  | TStar | TPlus | TQuest | TOpenNon | TOpenCap "jsstring option" | TClose

datatype catom = ALit nat | ASet "(nat \<times> nat) list"

datatype cstate = CNone | CAtom catom | CDash catom

datatype lexmode = Top | Cls bool "(nat \<times> nat) list" cstate | GName "nat list"

definition is_syntax_char :: "nat \<Rightarrow> bool" where
  "is_syntax_char c =
     (c \<in> set [0x5E, 0x24, 0x5C, 0x2E, 0x2A, 0x2B, 0x3F, 0x28, 0x29, 0x5B, 0x5D, 0x7B, 0x7D, 0x7C])"

definition is_line_terminator :: "nat \<Rightarrow> bool" where
  "is_line_terminator c = (c = 0x0A \<or> c = 0x0D \<or> c = 0x2028 \<or> c = 0x2029)"

definition escape_lit :: "nat \<Rightarrow> nat option" where
  "escape_lit e =
     (if is_syntax_char e \<or> e = 0x2F then Some e
      else if e = 0x74 then Some 0x09
      else if e = 0x6E then Some 0x0A
      else if e = 0x76 then Some 0x0B
      else if e = 0x66 then Some 0x0C
      else if e = 0x72 then Some 0x0D
      else None)"

definition class_atom_of :: "ptoken \<Rightarrow> catom res" where
  "class_atom_of t =
     (case t of
        Raw c \<Rightarrow> if is_line_terminator c then Unsupported else Ok (ALit c)
      | Code v \<Rightarrow> Ok (ALit v)
      | Esc e \<Rightarrow>
          if e = 0x64 then Ok (ASet [(0x30, 0x39)])
          else if e = 0x62 then Ok (ALit 0x08)
          else if e = 0x2D then Ok (ALit 0x2D)
          else (case escape_lit e of Some c \<Rightarrow> Ok (ALit c) | None \<Rightarrow> Unsupported))"

fun atom_ranges :: "catom \<Rightarrow> (nat \<times> nat) list" where
  "atom_ranges (ALit c) = [(c, c)]"
| "atom_ranges (ASet rs) = rs"

fun cls_step :: "bool \<Rightarrow> (nat \<times> nat) list \<Rightarrow> cstate \<Rightarrow> catom \<Rightarrow> bool
    \<Rightarrow> ((nat \<times> nat) list \<times> cstate) res" where
  "cls_step u rs CNone x dash = Ok (rs, CAtom x)"
| "cls_step u rs (CAtom a) x dash =
     (if dash then Ok (rs, CDash a) else Ok (rs @ atom_ranges a, CAtom x))"
| "cls_step u rs (CDash (ALit a)) (ALit b) dash =
     (if a \<le> b then Ok (rs @ [(a, b)], CNone) else Invalid)"
| "cls_step u rs (CDash a) x dash = (if u then Invalid else Unsupported)"

fun cls_close :: "(nat \<times> nat) list \<Rightarrow> cstate \<Rightarrow> (nat \<times> nat) list" where
  "cls_close rs CNone = rs"
| "cls_close rs (CAtom a) = rs @ atom_ranges a"
| "cls_close rs (CDash a) = rs @ atom_ranges a @ [(0x2D, 0x2D)]"

definition is_name_char :: "nat \<Rightarrow> bool" where
  "is_name_char c =
     ((0x30 \<le> c \<and> c \<le> 0x39) \<or> (0x41 \<le> c \<and> c \<le> 0x5A) \<or> (0x61 \<le> c \<and> c \<le> 0x7A)
      \<or> c = 0x5F \<or> c = 0x24)"

definition is_digit :: "nat \<Rightarrow> bool" where
  "is_digit c = (0x30 \<le> c \<and> c \<le> 0x39)"

text \<open>
  \<open>op_token\<close> reads an unescaped character outside a class that starts neither a class
  nor a group, \<open>esc_token\<close> an escaped one.
\<close>

definition op_token :: "bool \<Rightarrow> nat \<Rightarrow> token res" where
  "op_token u c =
     (if c = 0x29 then Ok TClose
      else if c = 0x7C then Ok TBar
      else if c = 0x2A then Ok TStar
      else if c = 0x2B then Ok TPlus
      else if c = 0x3F then Ok TQuest
      else if c = 0x5E then Ok TCaret
      else if c = 0x24 then Ok TDollar
      else if c = 0x2E then Ok (TSet True [(0x0A, 0x0A), (0x0D, 0x0D), (0x2028, 0x2029)])
      else if c = 0x5D then (if u then Invalid else Ok (TLit c))
      else if c = 0x7B \<or> c = 0x7D \<or> c = 0x2F \<or> is_line_terminator c then Unsupported
      else Ok (TLit c))"

definition esc_token :: "nat \<Rightarrow> token res" where
  "esc_token e =
     (if e = 0x64 then Ok (TSet False [(0x30, 0x39)])
      else case escape_lit e of Some c \<Rightarrow> Ok (TLit c) | None \<Rightarrow> Unsupported)"

definition ok_then :: "'a res \<Rightarrow> 'a list res \<Rightarrow> 'a list res" where
  "ok_then t r = (case t of Ok x \<Rightarrow> ok_cons x r | Invalid \<Rightarrow> Invalid | Unsupported \<Rightarrow> Unsupported)"

fun lex :: "bool \<Rightarrow> lexmode \<Rightarrow> ptoken list \<Rightarrow> token list res" where
  "lex u Top [] = Ok []"
| "lex u (Cls neg rs st) [] = Invalid"
| "lex u (GName acc) [] = Invalid"
| "lex u Top (t # ts) =
    (case t of
       Code v \<Rightarrow> ok_cons (TLit v) (lex u Top ts)
     | Esc e \<Rightarrow> ok_then (esc_token e) (lex u Top ts)
     | Raw c \<Rightarrow>
         if c = 0x5B then
           (case ts of
              Raw d # ts1 \<Rightarrow>
                if d = 0x5E then lex u (Cls True [] CNone) ts1
                else lex u (Cls False [] CNone) ts
            | _ \<Rightarrow> lex u (Cls False [] CNone) ts)
         else if c = 0x28 then
           (case ts of
              Raw q # ts1 \<Rightarrow>
                if q = 0x3F then
                  (case ts1 of
                     Raw k # ts2 \<Rightarrow>
                       if k = 0x3A then ok_cons TOpenNon (lex u Top ts2)
                       else if k = 0x3C then lex u (GName []) ts2
                       else Unsupported
                   | _ \<Rightarrow> Unsupported)
                else ok_cons (TOpenCap None) (lex u Top ts)
            | _ \<Rightarrow> ok_cons (TOpenCap None) (lex u Top ts))
         else ok_then (op_token u c) (lex u Top ts))"
| "lex u (Cls neg rs st) (t # ts) =
    (if t = Raw 0x5D then ok_cons (TSet neg (cls_close rs st)) (lex u Top ts)
     else case class_atom_of t of
       Ok x \<Rightarrow>
         (case cls_step u rs st x (t = Raw 0x2D) of
            Ok (rs', st') \<Rightarrow> lex u (Cls neg rs' st') ts
          | Invalid \<Rightarrow> Invalid
          | Unsupported \<Rightarrow> Unsupported)
     | Invalid \<Rightarrow> Invalid
     | Unsupported \<Rightarrow> Unsupported)"
| "lex u (GName acc) (t # ts) =
    (case t of
       Raw c \<Rightarrow>
         if c = 0x3E then
           (if acc \<noteq> [] \<and> \<not> is_digit (last acc)
            then ok_cons (TOpenCap (Some (rev acc))) (lex u Top ts)
            else Unsupported)
         else if is_name_char c then lex u (GName (c # acc)) ts
         else Unsupported
     | _ \<Rightarrow> Unsupported)"

definition tokens :: "bool \<Rightarrow> nat list \<Rightarrow> token list res" where
  "tokens u cs =
     (case unescape u UNormal cs of
        Ok pts \<Rightarrow> lex u Top pts
      | Invalid \<Rightarrow> Invalid
      | Unsupported \<Rightarrow> Unsupported)"

text \<open>
  Third pass: the tokens are assembled into a tree, one frame per open group. A frame
  holds the index of its capture group (\<open>None\<close> for \<^verbatim>\<open>(?:\<close> and for the top level), the
  alternatives already closed by \<^verbatim>\<open>|\<close>, the terms of the current alternative (last one
  first) and whether the last term may take a quantifier. A quantifier with nothing to
  repeat, an unmatched \<^verbatim>\<open>)\<close> and an unclosed group are invalid. Capture groups are
  numbered from 1 in the order of their opening parentheses.
\<close>

datatype status = NoTerm | Quantifiable | Quantified

fun mk_seq :: "regex list \<Rightarrow> regex" where
  "mk_seq [] = Empty"
| "mk_seq [t] = t"
| "mk_seq (t # ts) = Seq t (mk_seq ts)"

fun mk_alt :: "regex list \<Rightarrow> regex" where
  "mk_alt [] = Empty"
| "mk_alt [a] = a"
| "mk_alt (a # as) = Alt a (mk_alt as)"

definition close_frame :: "regex list \<Rightarrow> regex list \<Rightarrow> regex" where
  "close_frame alts sq = mk_alt (rev (mk_seq (rev sq) # alts))"

type_synonym frame = "nat option \<times> regex list \<times> regex list \<times> status"

fun quantify :: "nat \<Rightarrow> nat option \<Rightarrow> bool \<Rightarrow> frame \<Rightarrow> frame res" where
  "quantify mn mx q (k, alts, t # sq, Quantifiable) =
     Ok (k, alts, Repeat t mn mx True # sq, Quantified)"
| "quantify mn mx q (k, alts, Repeat t a b g # sq, Quantified) =
     (if q then Ok (k, alts, Repeat t a b False # sq, NoTerm) else Invalid)"
| "quantify mn mx q f = Invalid"

fun parse :: "frame \<Rightarrow> frame list \<Rightarrow> nat \<Rightarrow> (jsstring \<times> nat) list \<Rightarrow> token list
    \<Rightarrow> (regex \<times> (jsstring \<times> nat) list) res" where
  "parse (k, alts, sq, st) stack n names [] =
     (if stack = [] then Ok (close_frame alts sq, names) else Invalid)"
| "parse (k, alts, sq, st) stack n names (TLit c # ts) =
     parse (k, alts, Lit c # sq, Quantifiable) stack n names ts"
| "parse (k, alts, sq, st) stack n names (TSet neg rs # ts) =
     parse (k, alts, CharSet neg rs # sq, Quantifiable) stack n names ts"
| "parse (k, alts, sq, st) stack n names (TCaret # ts) =
     parse (k, alts, LineStart # sq, NoTerm) stack n names ts"
| "parse (k, alts, sq, st) stack n names (TDollar # ts) =
     parse (k, alts, LineEnd # sq, NoTerm) stack n names ts"
| "parse (k, alts, sq, st) stack n names (TBar # ts) =
     parse (k, mk_seq (rev sq) # alts, [], NoTerm) stack n names ts"
| "parse f stack n names (TStar # ts) =
     (case quantify 0 None False f of
        Ok f' \<Rightarrow> parse f' stack n names ts | Invalid \<Rightarrow> Invalid | Unsupported \<Rightarrow> Unsupported)"
| "parse f stack n names (TPlus # ts) =
     (case quantify 1 None False f of
        Ok f' \<Rightarrow> parse f' stack n names ts | Invalid \<Rightarrow> Invalid | Unsupported \<Rightarrow> Unsupported)"
| "parse f stack n names (TQuest # ts) =
     (case quantify 0 (Some 1) True f of
        Ok f' \<Rightarrow> parse f' stack n names ts | Invalid \<Rightarrow> Invalid | Unsupported \<Rightarrow> Unsupported)"
| "parse f stack n names (TOpenNon # ts) = parse (None, [], [], NoTerm) (f # stack) n names ts"
| "parse f stack n names (TOpenCap None # ts) =
     parse (Some n, [], [], NoTerm) (f # stack) (Suc n) names ts"
| "parse f stack n names (TOpenCap (Some nm) # ts) =
     (if nm \<in> fst ` set names then Unsupported
      else parse (Some n, [], [], NoTerm) (f # stack) (Suc n) (names @ [(nm, n)]) ts)"
| "parse (k, alts, sq, st) stack n names (TClose # ts) =
     (case stack of
        [] \<Rightarrow> Invalid
      | (k', alts', sq', st') # stack' \<Rightarrow>
          parse (k', alts',
                 (case k of Some i \<Rightarrow> Group i (close_frame alts sq) | None \<Rightarrow> close_frame alts sq) # sq',
                 Quantifiable)
            stack' n names ts)"

text \<open>
  The pattern text is read as code points in unicode mode and as code units otherwise.
  The result is the tree and the names of the named groups with their indices.
\<close>

definition parse_tokens :: "token list \<Rightarrow> (regex \<times> (jsstring \<times> nat) list) res" where
  "parse_tokens ts = parse (None, [], [], NoTerm) [] 1 [] ts"

definition compile :: "bool \<Rightarrow> jsstring \<Rightarrow> (regex \<times> (jsstring \<times> nat) list) res" where
  "compile u src =
     (case tokens u (if u then decode src else src) of
        Ok ts \<Rightarrow> parse_tokens ts
      | Invalid \<Rightarrow> Invalid
      | Unsupported \<Rightarrow> Unsupported)"

subsection \<open>The runtime's regular expressions: matching\<close>

text \<open>
  The backtracking matcher of ECMA-262 (22.2.2), as the list of all ways to match at a
  position, best first: where the standard calls a continuation and falls back to the
  next choice on failure, the list holds the next choice as its next element. A match
  state is the input before the position (last character first), the input after it,
  and the captures, which hold the captured characters.
\<close>

datatype mstate = MState (before: "nat list") (after: "nat list") (caps: "nat \<Rightarrow> nat list option")

fun in_ranges :: "(nat \<times> nat) list \<Rightarrow> nat \<Rightarrow> bool" where
  "in_ranges [] c = False"
| "in_ranges ((lo, hi) # rs) c = ((lo \<le> c \<and> c \<le> hi) \<or> in_ranges rs c)"

fun groups_in :: "regex \<Rightarrow> nat list" where
  "groups_in (Seq r1 r2) = groups_in r1 @ groups_in r2"
| "groups_in (Alt r1 r2) = groups_in r1 @ groups_in r2"
| "groups_in (Repeat r mn mx g) = groups_in r"
| "groups_in (Group i r) = i # groups_in r"
| "groups_in r = []"

fun clear_caps :: "nat list \<Rightarrow> mstate \<Rightarrow> mstate" where
  "clear_caps gs (MState b a k) = MState b a (\<lambda>i. if i \<in> set gs then None else k i)"

fun set_cap :: "nat \<Rightarrow> mstate \<Rightarrow> mstate \<Rightarrow> mstate" where
  "set_cap i (MState b a k) (MState b' a' k') =
     MState b' a' (k'(i \<mapsto> rev (take (length b' - length b) b')))"

fun rep_min :: "regex \<Rightarrow> nat" where
  "rep_min (Repeat r mn mx g) = mn"
| "rep_min r = 0"

text \<open>
  \<open>ms m r x\<close>: the states reached by matching \<open>r\<close> from \<open>x\<close>; \<open>m\<close> is the multiline flag.
  \<open>Repeat\<close> follows \<^verbatim>\<open>RepeatMatcher\<close>: the captures of the groups inside are cleared before
  each round, and once the minimum is reached a round that consumes nothing is dropped
  (the standard compares the end indices; a round never moves backwards, so "not equal"
  is "less input left").
\<close>

function ms :: "bool \<Rightarrow> regex \<Rightarrow> mstate \<Rightarrow> mstate list" where
  "ms m Empty x = [x]"
| "ms m (Lit c) x =
     (case after x of
        [] \<Rightarrow> []
      | d # a \<Rightarrow> if d = c then [MState (d # before x) a (caps x)] else [])"
| "ms m (CharSet neg rs) x =
     (case after x of
        [] \<Rightarrow> []
      | d # a \<Rightarrow> if in_ranges rs d \<noteq> neg then [MState (d # before x) a (caps x)] else [])"
| "ms m LineStart x =
     (case before x of [] \<Rightarrow> [x] | d # b \<Rightarrow> if m \<and> is_line_terminator d then [x] else [])"
| "ms m LineEnd x =
     (case after x of [] \<Rightarrow> [x] | d # a \<Rightarrow> if m \<and> is_line_terminator d then [x] else [])"
| "ms m (Seq r1 r2) x = concat (map (ms m r2) (ms m r1 x))"
| "ms m (Alt r1 r2) x = ms m r1 x @ ms m r2 x"
| "ms m (Group i r) x = map (set_cap i x) (ms m r x)"
| "ms m (Repeat r mn mx g) x =
     (if mx = Some 0 then [x]
      else if mn \<noteq> 0 then
        concat (map (ms m (Repeat r (mn - 1) (map_option (\<lambda>n. n - 1) mx) g))
                    (ms m r (clear_caps (groups_in r) x)))
      else if g then
        concat (map (\<lambda>y. if length (after y) < length (after x)
                          then ms m (Repeat r 0 (map_option (\<lambda>n. n - 1) mx) g) y else [])
                    (ms m r (clear_caps (groups_in r) x))) @ [x]
      else
        x # concat (map (\<lambda>y. if length (after y) < length (after x)
                          then ms m (Repeat r 0 (map_option (\<lambda>n. n - 1) mx) g) y else [])
                    (ms m r (clear_caps (groups_in r) x))))"
  by pat_completeness auto
termination
  by (relation "measures [\<lambda>(m, r, x). size r, \<lambda>(m, r, x). rep_min r, \<lambda>(m, r, x). length (after x)]")
     auto

text \<open>
  \<^verbatim>\<open>RegExpBuiltinExec\<close> for a pattern that is neither global nor sticky: the match is tried
  at index 0, then at each later index; the first way to match at the first index that
  has one is the result. \<open>find_match\<close> returns the input before the match and the final state.
\<close>

fun find_match :: "bool \<Rightarrow> regex \<Rightarrow> nat list \<Rightarrow> nat list \<Rightarrow> (nat list \<times> mstate) option" where
  "find_match m r b a =
     (case ms m r (MState b a (\<lambda>i. None)) of
        y # ys \<Rightarrow> Some (b, y)
      | [] \<Rightarrow> (case a of [] \<Rightarrow> None | d # a' \<Rightarrow> find_match m r (d # b) a'))"

subsection \<open>The runtime's \<^verbatim>\<open>RegExp\<close> objects\<close>

text \<open>
  What the module can raise: \<open>Error\<close> is the module's own \<^verbatim>\<open>throw new Error(..)\<close>, with
  the throw site in place of the message text; \<open>SyntaxError\<close> and \<open>TypeError\<close> come from
  the runtime. \<open>Unmodelled\<close> is not an exception: it marks a pattern or flag outside
  the fragment above.
\<close>

datatype usage =
    CannotUseChars
  | CannotUseCharsWithout
  | InvalidSearch
  | SearchNotInSource
  | SearchNotAtFirstPosition
  | UseReggInstead
  | NoParameters

datatype error = Error usage | SyntaxError | TypeError | Unmodelled

record regexp =
  source :: jsstring
  flags :: string

text \<open>A regular expression literal \<^verbatim>\<open>/src/\<close> of the module text: no flags.\<close>

definition regexp_literal :: "jsstring \<Rightarrow> regexp" where
  "regexp_literal src = \<lparr>source = src, flags = []\<rparr>"

text \<open>
  \<^verbatim>\<open>new RegExp(pattern, flags)\<close>. The first argument says whether the runtime knows the
  \<^verbatim>\<open>u\<close> flag at all; the pattern language is the same in both cases, named groups
  included. The module passes the flags \<^verbatim>\<open>''\<close>, \<^verbatim>\<open>'u'\<close>, \<^verbatim>\<open>'m'\<close> and \<^verbatim>\<open>'mu'\<close> only.
  The \<^verbatim>\<open>source\<close> of the object is the pattern text, and \<^verbatim>\<open>(?:)\<close> for the empty pattern
  (the fragment has no unescaped \<^verbatim>\<open>/\<close> outside a class and no raw line terminator,
  which the runtime would escape).
\<close>

definition RegExp_new :: "bool \<Rightarrow> jsstring \<Rightarrow> string \<Rightarrow> error + regexp" where
  "RegExp_new uflag pattern fl =
     (if \<not> (distinct fl \<and> set fl \<subseteq> {CHR ''m'', CHR ''u''}) then Inl Unmodelled
      else if CHR ''u'' \<in> set fl \<and> \<not> uflag then Inl SyntaxError
      else case compile (CHR ''u'' \<in> set fl) pattern of
        Ok p \<Rightarrow> Inr \<lparr>source = (if pattern = [] then js ''(?:)'' else pattern),
                     flags = filter (\<lambda>c. c \<in> set fl) ''mu''\<rparr>
      | Invalid \<Rightarrow> Inl SyntaxError
      | Unsupported \<Rightarrow> Inl Unmodelled)"

text \<open>
  The result of \<^verbatim>\<open>exec\<close>: the index of the match, the matched text \<^verbatim>\<open>match[0]\<close>, the
  captures \<^verbatim>\<open>match[1]\<close>, \<^verbatim>\<open>match[2]\<close>, ... and the \<^verbatim>\<open>groups\<close> object; \<open>None\<close> stands for
  \<^verbatim>\<open>undefined\<close>.
\<close>

record jsmatch =
  index :: nat
  matched :: jsstring
  captures :: "jsstring option list"
  groups :: "jsstring \<Rightarrow> jsstring option"

definition to_string :: "bool \<Rightarrow> nat list \<Rightarrow> jsstring" where
  "to_string u cps = (if u then encode cps else cps)"

definition regexp_exec :: "regexp \<Rightarrow> jsstring \<Rightarrow> error + jsmatch option" where
  "regexp_exec r s =
     (case compile (CHR ''u'' \<in> set (flags r)) (source r) of
        Ok (ast, names) \<Rightarrow>
          Inr (case find_match (CHR ''m'' \<in> set (flags r)) ast []
                      (if CHR ''u'' \<in> set (flags r) then decode s else s) of
                 None \<Rightarrow> None
               | Some (b, y) \<Rightarrow>
                   Some \<lparr>index = length (to_string (CHR ''u'' \<in> set (flags r)) (rev b)),
                         matched = to_string (CHR ''u'' \<in> set (flags r))
                                     (rev (take (length (before y) - length b) (before y))),
                         captures = map (\<lambda>i. map_option (to_string (CHR ''u'' \<in> set (flags r))) (caps y i))
                                        (groups_in ast),
                         groups = (\<lambda>nm. case map_of names nm of
                                            None \<Rightarrow> None
                                          | Some i \<Rightarrow> map_option (to_string (CHR ''u'' \<in> set (flags r)))
                                                                (caps y i))\<rparr>)
      | Invalid \<Rightarrow> Inl Unmodelled
      | Unsupported \<Rightarrow> Inl Unmodelled)"

definition regexp_test :: "regexp \<Rightarrow> jsstring \<Rightarrow> error + bool" where
  "regexp_test r s = (case regexp_exec r s of Inl e \<Rightarrow> Inl e | Inr mo \<Rightarrow> Inr (mo \<noteq> None))"

text \<open>
  A pattern matches a string as a whole when some way of matching from the start of
  the string ends at its end: the string is in the language of the production.
\<close>

definition matches_whole :: "regexp \<Rightarrow> jsstring \<Rightarrow> bool" where
  "matches_whole r s =
     (case compile (CHR ''u'' \<in> set (flags r)) (source r) of
        Ok (ast, names) \<Rightarrow>
          list_ex (\<lambda>y. after y = [])
            (ms (CHR ''m'' \<in> set (flags r)) ast
                (MState [] (if CHR ''u'' \<in> set (flags r) then decode s else s) (\<lambda>i. None)))
      | Invalid \<Rightarrow> False
      | Unsupported \<Rightarrow> False)"

text \<open>
  A regular expression class as \<^verbatim>\<open>detectUnicodeSupport\<close> uses it: the constructor
  takes a pattern and flags and returns an object or throws; the object's \<^verbatim>\<open>exec\<close>
  takes a string and returns \<^verbatim>\<open>null\<close> (\<open>None\<close>) or the match array, or throws.
  \<open>RegExp_class\<close> is the runtime's own class.
\<close>

type_synonym regexp_object = "jsstring \<Rightarrow> error + jsstring option list option"

type_synonym regexp_class = "jsstring \<Rightarrow> string \<Rightarrow> error + regexp_object"

definition RegExp_class :: "bool \<Rightarrow> regexp_class" where
  "RegExp_class uflag pattern fl =
     (case RegExp_new uflag pattern fl of
        Inl e \<Rightarrow> Inl e
      | Inr r \<Rightarrow>
          Inr (\<lambda>s. case regexp_exec r s of
                     Inl e \<Rightarrow> Inl e
                   | Inr None \<Rightarrow> Inr None
                   | Inr (Some mt) \<Rightarrow> Inr (Some (Some (matched mt) # captures mt))))"

subsection \<open>\<^verbatim>\<open>grammar.mjs\<close>: the capability probe\<close>

text \<open>
  \<^verbatim>\<open>detectUnicodeSupport(RegExpImpl)\<close>. The body of the \<^verbatim>\<open>try\<close> block is \<open>probe\<close>: the
  pattern and the input are both the two code units of U+1D306; \<^verbatim>\<open>match[0].length\<close>
  throws a \<^verbatim>\<open>TypeError\<close> when \<^verbatim>\<open>match[0]\<close> is \<^verbatim>\<open>undefined\<close>. The \<^verbatim>\<open>catch\<close> block is empty and
  the function then returns \<^verbatim>\<open>false\<close>. The argument is \<open>None\<close> when the caller passes
  nothing, or something that is not a function; the runtime's class is used then.
\<close>

definition probe :: "regexp_class \<Rightarrow> error + bool" where
  "probe RegExpImpl =
     (case RegExpImpl [0xD834, 0xDF06] ''u'' of
        Inl e \<Rightarrow> Inl e
      | Inr exec \<Rightarrow>
          (case exec [0xD834, 0xDF06] of
             Inl e \<Rightarrow> Inl e
           | Inr None \<Rightarrow> Inr False
           | Inr (Some mt) \<Rightarrow>
               (case mt of
                  Some m0 # rest \<Rightarrow> Inr (length m0 = 2)
                | _ \<Rightarrow> Inl TypeError)))"

definition detectUnicodeSupport :: "bool \<Rightarrow> regexp_class option \<Rightarrow> bool" where
  "detectUnicodeSupport uflag RegExpImpl =
     (case probe (case RegExpImpl of None \<Rightarrow> RegExp_class uflag | Some impl \<Rightarrow> impl) of
        Inl e \<Rightarrow> False
      | Inr b \<Rightarrow> b)"

definition UNICODE_SUPPORT :: "bool \<Rightarrow> bool" where
  "UNICODE_SUPPORT uflag = detectUnicodeSupport uflag None"

subsection \<open>\<^verbatim>\<open>grammar.mjs\<close>: the character class helpers\<close>

definition chars :: "regexp \<Rightarrow> error + jsstring" where
  "chars regexp =
     (if char_at (source regexp) 0 \<noteq> Some 0x5B then Inl (Error CannotUseChars)
      else Inr (slice (source regexp) 1 (lastIndexOf (source regexp) (js '']''))))"

text \<open>The values \<^verbatim>\<open>search\<close> may hold, with \<^verbatim>\<open>!search\<close> and \<^verbatim>\<open>typeof search\<close>.\<close>

datatype jsvalue = JUndefined | JNull | JBoolean bool | JNumber int | JString jsstring

fun truthy :: "jsvalue \<Rightarrow> bool" where
  "truthy JUndefined = False"
| "truthy JNull = False"
| "truthy (JBoolean b) = b"
| "truthy (JNumber n) = (n \<noteq> 0)"
| "truthy (JString s) = (s \<noteq> [])"

fun typeof :: "jsvalue \<Rightarrow> string" where
  "typeof JUndefined = ''undefined''"
| "typeof JNull = ''object''"
| "typeof (JBoolean b) = ''boolean''"
| "typeof (JNumber n) = ''number''"
| "typeof (JString s) = ''string''"

definition chars_without :: "bool \<Rightarrow> regexp \<Rightarrow> jsvalue \<Rightarrow> error + regexp" where
  "chars_without uflag regexp search =
     (if char_at (source regexp) 0 \<noteq> Some 0x5B then Inl (Error CannotUseCharsWithout)
      else if \<not> truthy search \<or> typeof search \<noteq> ''string'' then Inl (Error InvalidSearch)
      else case search of
        JString s \<Rightarrow>
          if indexOf (source regexp) s = - 1 then Inl (Error SearchNotInSource)
          else if s = js ''-'' \<and> indexOf (source regexp) s \<noteq> 1
            then Inl (Error SearchNotAtFirstPosition)
          else RegExp_new uflag (replace (source regexp) s [])
                 (if UNICODE_SUPPORT uflag then ''u'' else [])
      | _ \<Rightarrow> Inl (Error InvalidSearch))"

subsection \<open>\<^verbatim>\<open>grammar.mjs\<close>: the combinators\<close>

text \<open>
  An argument of \<^verbatim>\<open>reg\<close> and \<^verbatim>\<open>regg\<close> is a string or a regular expression.
  \<open>reg_part\<close> is the function mapped over the arguments; \<open>self_undefined\<close> is
  \<^verbatim>\<open>self === undefined\<close>, which holds when \<^verbatim>\<open>reg(..)\<close> is called directly (the module is
  strict code) and fails when \<^verbatim>\<open>regg\<close> calls \<^verbatim>\<open>reg.apply(regg, ..)\<close>.
  \<open>map_parts\<close> is \<^verbatim>\<open>Array.prototype.map\<close> with a callback that may throw: left to right,
  the first exception ends it.
\<close>

datatype part = Str jsstring | Pat regexp

fun reg_part :: "bool \<Rightarrow> part \<Rightarrow> error + jsstring" where
  "reg_part self_undefined (Str s) =
     (if self_undefined \<and> s = js ''|'' then Inl (Error UseReggInstead) else Inr s)"
| "reg_part self_undefined (Pat r) = Inr (source r)"

fun map_parts :: "(part \<Rightarrow> error + jsstring) \<Rightarrow> part list \<Rightarrow> error + jsstring list" where
  "map_parts f [] = Inr []"
| "map_parts f (p # ps) =
     (case f p of
        Inl e \<Rightarrow> Inl e
      | Inr s \<Rightarrow> (case map_parts f ps of Inl e \<Rightarrow> Inl e | Inr ss \<Rightarrow> Inr (s # ss)))"

definition reg_apply :: "bool \<Rightarrow> bool \<Rightarrow> part list \<Rightarrow> error + regexp" where
  "reg_apply self_undefined uflag args =
     (case map_parts (reg_part self_undefined) args of
        Inl e \<Rightarrow> Inl e
      | Inr ss \<Rightarrow> RegExp_new uflag (concat ss) (if UNICODE_SUPPORT uflag then ''mu'' else ''m''))"

definition reg :: "bool \<Rightarrow> part list \<Rightarrow> error + regexp" where
  "reg uflag args = reg_apply True uflag args"

definition regg :: "bool \<Rightarrow> part list \<Rightarrow> error + regexp" where
  "regg uflag args =
     (if length args = 0 then Inl (Error NoParameters)
      else reg_apply False uflag ([Str (js ''(?:'')] @ args @ [Str (js '')'')]))"

subsection \<open>\<^verbatim>\<open>grammar.mjs\<close>: the productions\<close>

text \<open>
  A production is a module-level variable; its initialiser may throw, which ends the
  loading of the module, so a production is an \<open>error + regexp\<close> and an exception
  in the initialiser of a production it uses is passed on. The arguments of a call are
  evaluated left to right (\<open>eval_args\<close>). \<open>str\<close> is a string argument, \<open>strE\<close> one that
  is computed by \<^verbatim>\<open>chars\<close>, \<open>pat\<close> a regular expression argument.
\<close>

fun eval_args :: "(error + part) list \<Rightarrow> error + part list" where
  "eval_args [] = Inr []"
| "eval_args (a # as) =
     (case a of
        Inl e \<Rightarrow> Inl e
      | Inr p \<Rightarrow> (case eval_args as of Inl e \<Rightarrow> Inl e | Inr ps \<Rightarrow> Inr (p # ps)))"

definition str :: "jsstring \<Rightarrow> error + part" where
  "str s = Inr (Str s)"

definition strE :: "error + jsstring \<Rightarrow> error + part" where
  "strE x = (case x of Inl e \<Rightarrow> Inl e | Inr s \<Rightarrow> Inr (Str s))"

definition pat :: "error + regexp \<Rightarrow> error + part" where
  "pat x = (case x of Inl e \<Rightarrow> Inl e | Inr r \<Rightarrow> Inr (Pat r))"

definition regE :: "bool \<Rightarrow> (error + part) list \<Rightarrow> error + regexp" where
  "regE uflag args = (case eval_args args of Inl e \<Rightarrow> Inl e | Inr ps \<Rightarrow> reg uflag ps)"

definition reggE :: "bool \<Rightarrow> (error + part) list \<Rightarrow> error + regexp" where
  "reggE uflag args = (case eval_args args of Inl e \<Rightarrow> Inl e | Inr ps \<Rightarrow> regg uflag ps)"

definition bindE :: "error + 'a \<Rightarrow> ('a \<Rightarrow> error + 'b) \<Rightarrow> error + 'b" where
  "bindE x f = (case x of Inl e \<Rightarrow> Inl e | Inr v \<Rightarrow> f v)"

definition SChar :: regexp where
  "SChar = regexp_literal (concat [js ''['', bsl ''x20'', bsl ''x09'', bsl ''x0D'', bsl ''x0A]''])"

definition S :: "bool \<Rightarrow> error + regexp" where
  "S uflag = regE uflag [pat (Inr SChar), str (js ''+'')]"

definition NameStartChar_literal :: regexp where
  "NameStartChar_literal = regexp_literal
     (concat [js ''[:_a-zA-Z'', bsl ''xC0-'', bsl ''xD6'', bsl ''xD8-'', bsl ''xF6'', bsl ''xF8-'',
              bsl ''u02FF'', bsl ''u0370-'', bsl ''u1FFF'', bsl ''u200C-'', bsl ''u200D'',
              bsl ''u2070-'', bsl ''u218F'', bsl ''u2C00-'', bsl ''u2FEF'', bsl ''u3001-'',
              bsl ''uD7FF'', bsl ''uF900-'', bsl ''uFDCF'', bsl ''uFDF0-'', bsl ''uFFFD]''])"

definition NameStartChar :: "bool \<Rightarrow> error + regexp" where
  "NameStartChar uflag =
     (if UNICODE_SUPPORT uflag
      then regE uflag [str (js ''[''), strE (chars NameStartChar_literal),
                       str (concat [bsl ''u{10000}-'', bsl ''u{10FFFF}'']), str (js '']'')]
      else Inr NameStartChar_literal)"

definition NameStartChar_s :: "bool \<Rightarrow> error + jsstring" where
  "NameStartChar_s uflag = bindE (NameStartChar uflag) chars"

definition NameChar :: "bool \<Rightarrow> error + regexp" where
  "NameChar uflag =
     regE uflag [str (js ''[''), strE (NameStartChar_s uflag),
                 strE (chars (regexp_literal (concat [js ''[-.0-9'', bsl ''xB7]'']))),
                 strE (chars (regexp_literal
                   (concat [js ''['', bsl ''u0300-'', bsl ''u036F'', bsl ''u203F-'', bsl ''u2040]'']))),
                 str (js '']'')]"

definition Name :: "bool \<Rightarrow> error + regexp" where
  "Name uflag = regE uflag [pat (NameStartChar uflag), pat (NameChar uflag), str (js ''*'')]"

definition NCNameStartChar :: "bool \<Rightarrow> error + regexp" where
  "NCNameStartChar uflag =
     bindE (NameStartChar uflag) (\<lambda>r. chars_without uflag r (JString (js '':'')))"

definition NCNameChar :: "bool \<Rightarrow> error + regexp" where
  "NCNameChar uflag =
     bindE (NameChar uflag) (\<lambda>r. chars_without uflag r (JString (js '':'')))"

definition NCName :: "bool \<Rightarrow> error + regexp" where
  "NCName uflag = regE uflag [pat (NCNameStartChar uflag), pat (NCNameChar uflag), str (js ''*'')]"

definition QName :: "bool \<Rightarrow> error + regexp" where
  "QName uflag =
     regE uflag [pat (NCName uflag), pat (reggE uflag [str (js '':''), pat (NCName uflag)]),
                 str (js ''?'')]"

definition QName_exact :: "bool \<Rightarrow> error + regexp" where
  "QName_exact uflag = regE uflag [str (js ''^''), pat (QName uflag), str (js ''$'')]"

definition SystemLiteral :: "bool \<Rightarrow> error + regexp" where
  "SystemLiteral uflag =
     reggE uflag [pat (Inr (regexp_literal
       (concat [[0x22], js ''[^'', [0x22], js '']*'', [0x22], js ''|'',
                [0x27], js ''[^'', [0x27], js '']*'', [0x27]])))]"

definition PubidChar :: regexp where
  "PubidChar = regexp_literal
     (concat [js ''['', bsl ''x20'', bsl ''x0D'', bsl ''x0Aa-zA-Z0-9-'', [0x27],
              js ''()+,./:=?;!*#@$_%]''])"

definition PubidLiteral :: "bool \<Rightarrow> error + regexp" where
  "PubidLiteral uflag =
     reggE uflag [str [0x22], pat (Inr PubidChar), str (js ''*'' @ [0x22]), str (js ''|''),
                  str [0x27], pat (chars_without uflag PubidChar (JString [0x27])),
                  str (js ''*'' @ [0x27])]"

definition SYSTEM :: jsstring where
  "SYSTEM = js ''SYSTEM''"

definition PUBLIC :: jsstring where
  "PUBLIC = js ''PUBLIC''"

definition ExternalID :: "bool \<Rightarrow> error + regexp" where
  "ExternalID uflag =
     reggE uflag
       [pat (reggE uflag [str SYSTEM, pat (S uflag), pat (SystemLiteral uflag)]),
        str (js ''|''),
        pat (reggE uflag [str PUBLIC, pat (S uflag), pat (PubidLiteral uflag), pat (S uflag),
                          pat (SystemLiteral uflag)])]"

definition ExternalID_match :: "bool \<Rightarrow> error + regexp" where
  "ExternalID_match uflag =
     regE uflag
       [str (js ''^''),
        pat (reggE uflag
          [pat (reggE uflag [str SYSTEM, pat (S uflag), str (js ''(?<SystemLiteralOnly>''),
                             pat (SystemLiteral uflag), str (js '')'')]),
           str (js ''|''),
           pat (reggE uflag [str PUBLIC, pat (S uflag), str (js ''(?<PubidLiteral>''),
                             pat (PubidLiteral uflag), str (js '')''), pat (S uflag),
                             str (js ''(?<SystemLiteral>''), pat (SystemLiteral uflag),
                             str (js '')'')])])]"

section \<open>Notions for the properties\<close>

subsection \<open>Notions of the specification\<close>

text \<open>The text an argument of \<^verbatim>\<open>reg\<close> or \<^verbatim>\<open>regg\<close> contributes to the pattern.\<close>

definition part_text :: "part \<Rightarrow> jsstring" where
  "part_text p = (case p of Str s \<Rightarrow> s | Pat r \<Rightarrow> source r)"

text \<open>
  The flag invariant the specification states for a Compiled Pattern: multiline always,
  unicode-aware exactly when the Capability Flag holds, never case-insensitive.
\<close>

definition has_flag :: "regexp \<Rightarrow> char \<Rightarrow> bool" where
  "has_flag r c = (c \<in> set (flags r))"

definition flag_invariant :: "bool \<Rightarrow> regexp \<Rightarrow> bool" where
  "flag_invariant uflag r =
     (has_flag r CHR ''m'' \<and> (has_flag r CHR ''u'' \<longleftrightarrow> UNICODE_SUPPORT uflag) \<and> \<not> has_flag r CHR ''i'')"

text \<open>
  The conditions under which, in the specification's words, subtract-literal fails: the
  class body is the text strictly between the first \<^verbatim>\<open>[\<close> and the last \<^verbatim>\<open>]\<close>
  (what extract-class-body returns).
\<close>

definition class_body :: "jsstring \<Rightarrow> jsstring" where
  "class_body src = slice src 1 (lastIndexOf src (js '']''))"

definition subtract_literal_raises :: "regexp \<Rightarrow> jsvalue \<Rightarrow> bool" where
  "subtract_literal_raises regexp search =
     (\<not> starts_with (js ''['') (source regexp)
      \<or> (case search of
            JString token \<Rightarrow>
              token = []
              \<or> \<not> sublist token (class_body (source regexp))
              \<or> (token = js ''-'' \<and> \<not> starts_with (js ''-'') (class_body (source regexp)))
          | _ \<Rightarrow> True))"

subsection \<open>Using a production\<close>

text \<open>
  A production of the module is the outcome of its defining expression: a pattern, or the
  error thrown while the module loads. \<open>test_production\<close> and \<open>exec_production\<close> are
  \<^verbatim>\<open>P.test(s)\<close> and \<^verbatim>\<open>P.exec(s)\<close> for a production \<^verbatim>\<open>P\<close>; \<open>whole_production p s\<close> says that
  the production matches the string \<open>s\<close> in full. \<open>dq s\<close> is the text \<open>s\<close> in double quotes.
\<close>

definition test_production :: "error + regexp \<Rightarrow> jsstring \<Rightarrow> error + bool" where
  "test_production p s = bindE p (\<lambda>r. regexp_test r s)"

definition exec_production :: "error + regexp \<Rightarrow> jsstring \<Rightarrow> error + jsmatch option" where
  "exec_production p s = bindE p (\<lambda>r. regexp_exec r s)"

definition whole_production :: "error + regexp \<Rightarrow> jsstring \<Rightarrow> bool" where
  "whole_production p s = (case p of Inl e \<Rightarrow> False | Inr r \<Rightarrow> matches_whole r s)"

definition dq :: "string \<Rightarrow> jsstring" where
  "dq s = [0x22] @ js s @ [0x22]"

subsection \<open>Pieces of pattern text\<close>

text \<open>
  The module builds its patterns by concatenation. \<open>piece u xs ts\<close>: the text \<open>xs\<close> is read
  on its own as the tokens \<open>ts\<close>, it has no surrogate code unit, and its end cannot combine
  with what follows (it does not end in a lead surrogate escape or an opening parenthesis).
\<close>

definition ok_append :: "'a list \<Rightarrow> 'a list res \<Rightarrow> 'a list res" where
  "ok_append xs r = (case r of Ok ys \<Rightarrow> Ok (xs @ ys) | Invalid \<Rightarrow> Invalid | Unsupported \<Rightarrow> Unsupported)"

definition lead_code :: "ptoken \<Rightarrow> bool" where
  "lead_code t = (case t of Code v \<Rightarrow> 0xD800 \<le> v \<and> v \<le> 0xDBFF | _ \<Rightarrow> False)"

definition piece :: "bool \<Rightarrow> nat list \<Rightarrow> token list \<Rightarrow> bool" where
  "piece u xs ts =
     (\<exists>ps. unescape u UNormal xs = Ok ps
          \<and> (ps = [] \<or> (\<not> lead_code (last ps) \<and> last ps \<noteq> Raw 0x28))
          \<and> lex u Top ps = Ok ts
          \<and> list_all (\<lambda>c. c < 0xD800) xs)"

definition is_ok :: "'a res \<Rightarrow> bool" where
  "is_ok r = (case r of Ok x \<Rightarrow> True | Invalid \<Rightarrow> False | Unsupported \<Rightarrow> False)"

subsection \<open>The name productions, written out\<close>

text \<open>
  The source texts that the module computes for the name productions, the tokens and the
  trees that the runtime reads from them, written out. They are not part of the module:
  that the module computes these texts, and that the runtime reads them so, is proved
  below for each of them. \<open>NCNameStartChar_body\<close> is the inside of the \<^verbatim>\<open>NameStartChar\<close>
  literal after its leading \<^verbatim>\<open>:\<close>; \<open>astral\<close> is the range that the module adds when the
  Capability Flag holds.
\<close>

definition NCNameStartChar_body :: jsstring where
  "NCNameStartChar_body =
     concat [js ''_a-zA-Z'', bsl ''xC0-'', bsl ''xD6'', bsl ''xD8-'', bsl ''xF6'', bsl ''xF8-'',
             bsl ''u02FF'', bsl ''u0370-'', bsl ''u1FFF'', bsl ''u200C-'', bsl ''u200D'',
             bsl ''u2070-'', bsl ''u218F'', bsl ''u2C00-'', bsl ''u2FEF'', bsl ''u3001-'',
             bsl ''uD7FF'', bsl ''uF900-'', bsl ''uFDCF'', bsl ''uFDF0-'', bsl ''uFFFD'']"

definition astral :: jsstring where
  "astral = concat [bsl ''u{10000}-'', bsl ''u{10FFFF}'']"

definition NameChar_extra :: jsstring where
  "NameChar_extra =
     concat [js ''-.0-9'', bsl ''xB7'', bsl ''u0300-'', bsl ''u036F'', bsl ''u203F-'', bsl ''u2040'']"

definition NameStartChar_text :: "bool \<Rightarrow> jsstring" where
  "NameStartChar_text u = js ''[:'' @ NCNameStartChar_body @ (if u then astral else []) @ js '']''"

definition NCNameStartChar_text :: "bool \<Rightarrow> jsstring" where
  "NCNameStartChar_text u = js ''['' @ NCNameStartChar_body @ (if u then astral else []) @ js '']''"

definition NameChar_text :: "bool \<Rightarrow> jsstring" where
  "NameChar_text u =
     js ''[:'' @ NCNameStartChar_body @ (if u then astral else []) @ NameChar_extra @ js '']''"

definition NCNameChar_text :: "bool \<Rightarrow> jsstring" where
  "NCNameChar_text u =
     js ''['' @ NCNameStartChar_body @ (if u then astral else []) @ NameChar_extra @ js '']''"

definition NCNameStartChar_ranges :: "bool \<Rightarrow> (nat \<times> nat) list" where
  "NCNameStartChar_ranges u =
     [(0x5F, 0x5F), (0x61, 0x7A), (0x41, 0x5A), (0xC0, 0xD6), (0xD8, 0xF6), (0xF8, 0x2FF),
      (0x370, 0x1FFF), (0x200C, 0x200D), (0x2070, 0x218F), (0x2C00, 0x2FEF), (0x3001, 0xD7FF),
      (0xF900, 0xFDCF), (0xFDF0, 0xFFFD)] @ (if u then [(0x10000, 0x10FFFF)] else [])"

definition NameChar_extra_ranges :: "(nat \<times> nat) list" where
  "NameChar_extra_ranges =
     [(0x2D, 0x2D), (0x2E, 0x2E), (0x30, 0x39), (0xB7, 0xB7), (0x300, 0x36F), (0x203F, 0x2040)]"

definition NCNameChar_ranges :: "bool \<Rightarrow> (nat \<times> nat) list" where
  "NCNameChar_ranges u = NCNameStartChar_ranges u @ NameChar_extra_ranges"

definition Name_text :: "bool \<Rightarrow> jsstring" where
  "Name_text u = NameStartChar_text u @ NameChar_text u @ js ''*''"

definition Name_ast :: "bool \<Rightarrow> regex" where
  "Name_ast u =
     Seq (CharSet False ((0x3A, 0x3A) # NCNameStartChar_ranges u))
         (Repeat (CharSet False ((0x3A, 0x3A) # NCNameChar_ranges u)) 0 None True)"

definition NCName_text :: "bool \<Rightarrow> jsstring" where
  "NCName_text u = NCNameStartChar_text u @ NCNameChar_text u @ js ''*''"

definition NCName_tokens :: "bool \<Rightarrow> token list" where
  "NCName_tokens u =
     [TSet False (NCNameStartChar_ranges u), TSet False (NCNameChar_ranges u), TStar]"

definition NCName_ast :: "bool \<Rightarrow> regex" where
  "NCName_ast u =
     Seq (CharSet False (NCNameStartChar_ranges u))
         (Repeat (CharSet False (NCNameChar_ranges u)) 0 None True)"

definition QName_group_text :: "bool \<Rightarrow> jsstring" where
  "QName_group_text u = js ''(?:'' @ js '':'' @ NCName_text u @ js '')''"

definition QName_text :: "bool \<Rightarrow> jsstring" where
  "QName_text u = NCName_text u @ QName_group_text u @ js ''?''"

definition QName_exact_text :: "bool \<Rightarrow> jsstring" where
  "QName_exact_text u = js ''^'' @ QName_text u @ js ''$''"

definition QName_exact_ast :: "bool \<Rightarrow> regex" where
  "QName_exact_ast u =
     Seq LineStart
       (Seq (CharSet False (NCNameStartChar_ranges u))
         (Seq (Repeat (CharSet False (NCNameChar_ranges u)) 0 None True)
           (Seq (Repeat (Seq (Lit 0x3A) (NCName_ast u)) 0 (Some 1) True)
             LineEnd)))"

subsection \<open>\<^verbatim>\<open>ExternalID\<close> and \<^verbatim>\<open>ExternalID_match\<close>, written out\<close>

text \<open>
  The same for the productions that \<^verbatim>\<open>ExternalID\<close> and \<^verbatim>\<open>ExternalID_match\<close> are built from.
  \<open>quoted q r\<close> is a literal between two quotes \<open>q\<close> whose characters match \<open>r\<close>;
  \<open>lits cs r\<close> is the characters \<open>cs\<close> followed by \<open>r\<close>. The \<open>system\<close>, \<open>public\<close> and \<open>alt\<close>
  parts belong to \<^verbatim>\<open>ExternalID_match\<close>, the \<open>sys\<close> and \<open>pub\<close> parts to \<^verbatim>\<open>ExternalID\<close>.
\<close>

definition SChar_text :: jsstring where
  "SChar_text = concat [js ''['', bsl ''x20'', bsl ''x09'', bsl ''x0D'', bsl ''x0A]'']"

definition SChar_ranges :: "(nat \<times> nat) list" where
  "SChar_ranges = [(0x20, 0x20), (0x09, 0x09), (0x0D, 0x0D), (0x0A, 0x0A)]"

definition S_text :: jsstring where
  "S_text = SChar_text @ js ''+''"

definition S_tokens :: "token list" where
  "S_tokens = [TSet False SChar_ranges, TPlus]"

definition S_ast :: regex where
  "S_ast = Repeat (CharSet False SChar_ranges) 1 None True"

definition SystemLiteral_text :: jsstring where
  "SystemLiteral_text =
     concat [js ''(?:'', [0x22], js ''[^'', [0x22], js '']*'', [0x22], js ''|'',
             [0x27], js ''[^'', [0x27], js '']*'', [0x27], js '')'']"

definition SystemLiteral_tokens :: "token list" where
  "SystemLiteral_tokens =
     [TOpenNon, TLit 0x22, TSet True [(0x22, 0x22)], TStar, TLit 0x22, TBar,
      TLit 0x27, TSet True [(0x27, 0x27)], TStar, TLit 0x27, TClose]"

definition quoted :: "nat \<Rightarrow> regex \<Rightarrow> regex" where
  "quoted q r = Seq (Lit q) (Seq (Repeat r 0 None True) (Lit q))"

definition SystemLiteral_ast :: regex where
  "SystemLiteral_ast =
     Alt (quoted 0x22 (CharSet True [(0x22, 0x22)])) (quoted 0x27 (CharSet True [(0x27, 0x27)]))"

definition PubidChar_text :: jsstring where
  "PubidChar_text =
     concat [js ''['', bsl ''x20'', bsl ''x0D'', bsl ''x0Aa-zA-Z0-9-'', [0x27],
             js ''()+,./:=?;!*#@$_%]'']"

definition PubidChar_ranges :: "(nat \<times> nat) list" where
  "PubidChar_ranges =
     [(0x20, 0x20), (0x0D, 0x0D), (0x0A, 0x0A), (0x61, 0x7A), (0x41, 0x5A), (0x30, 0x39),
      (0x2D, 0x2D), (0x27, 0x27), (0x28, 0x28), (0x29, 0x29), (0x2B, 0x2B), (0x2C, 0x2C),
      (0x2E, 0x2E), (0x2F, 0x2F), (0x3A, 0x3A), (0x3D, 0x3D), (0x3F, 0x3F), (0x3B, 0x3B),
      (0x21, 0x21), (0x2A, 0x2A), (0x23, 0x23), (0x40, 0x40), (0x24, 0x24), (0x5F, 0x5F),
      (0x25, 0x25)]"

definition PubidChar_noquote_text :: jsstring where
  "PubidChar_noquote_text =
     concat [js ''['', bsl ''x20'', bsl ''x0D'', bsl ''x0Aa-zA-Z0-9-'', js ''()+,./:=?;!*#@$_%]'']"

definition PubidChar_noquote_ranges :: "(nat \<times> nat) list" where
  "PubidChar_noquote_ranges =
     [(0x20, 0x20), (0x0D, 0x0D), (0x0A, 0x0A), (0x61, 0x7A), (0x41, 0x5A), (0x30, 0x39),
      (0x2D, 0x2D), (0x28, 0x28), (0x29, 0x29), (0x2B, 0x2B), (0x2C, 0x2C), (0x2E, 0x2E),
      (0x2F, 0x2F), (0x3A, 0x3A), (0x3D, 0x3D), (0x3F, 0x3F), (0x3B, 0x3B), (0x21, 0x21),
      (0x2A, 0x2A), (0x23, 0x23), (0x40, 0x40), (0x24, 0x24), (0x5F, 0x5F), (0x25, 0x25)]"

definition PubidLiteral_text :: jsstring where
  "PubidLiteral_text =
     concat [js ''(?:'', [0x22], PubidChar_text, js ''*'', [0x22], js ''|'',
             [0x27], PubidChar_noquote_text, js ''*'', [0x27], js '')'']"

definition PubidLiteral_tokens :: "token list" where
  "PubidLiteral_tokens =
     [TOpenNon, TLit 0x22, TSet False PubidChar_ranges, TStar, TLit 0x22, TBar,
      TLit 0x27, TSet False PubidChar_noquote_ranges, TStar, TLit 0x27, TClose]"

definition PubidLiteral_ast :: regex where
  "PubidLiteral_ast =
     Alt (quoted 0x22 (CharSet False PubidChar_ranges))
         (quoted 0x27 (CharSet False PubidChar_noquote_ranges))"

definition lits :: "nat list \<Rightarrow> regex \<Rightarrow> regex" where
  "lits cs r = foldr (\<lambda>c. Seq (Lit c)) cs r"

definition ExternalID_system_text :: jsstring where
  "ExternalID_system_text =
     concat [js ''(?:'', SYSTEM, S_text, js ''(?<SystemLiteralOnly>'', SystemLiteral_text,
             js '')'', js '')'']"

definition ExternalID_system_tokens :: "token list" where
  "ExternalID_system_tokens =
     [TOpenNon] @ map TLit SYSTEM @ S_tokens @ [TOpenCap (Some (js ''SystemLiteralOnly''))]
       @ SystemLiteral_tokens @ [TClose, TClose]"

definition ExternalID_system_ast :: regex where
  "ExternalID_system_ast = lits SYSTEM (Seq S_ast (Group 1 SystemLiteral_ast))"

definition ExternalID_public_text :: jsstring where
  "ExternalID_public_text =
     concat [js ''(?:'', PUBLIC, S_text, js ''(?<PubidLiteral>'', PubidLiteral_text, js '')'',
             S_text, js ''(?<SystemLiteral>'', SystemLiteral_text, js '')'', js '')'']"

definition ExternalID_public_tokens :: "token list" where
  "ExternalID_public_tokens =
     [TOpenNon] @ map TLit PUBLIC @ S_tokens @ [TOpenCap (Some (js ''PubidLiteral''))]
       @ PubidLiteral_tokens @ [TClose] @ S_tokens @ [TOpenCap (Some (js ''SystemLiteral''))]
       @ SystemLiteral_tokens @ [TClose, TClose]"

definition ExternalID_public_ast :: regex where
  "ExternalID_public_ast =
     lits PUBLIC (Seq S_ast (Seq (Group 2 PubidLiteral_ast) (Seq S_ast (Group 3 SystemLiteral_ast))))"

definition ExternalID_alt_text :: jsstring where
  "ExternalID_alt_text =
     concat [js ''(?:'', ExternalID_system_text, js ''|'', ExternalID_public_text, js '')'']"

definition ExternalID_alt_tokens :: "token list" where
  "ExternalID_alt_tokens =
     [TOpenNon] @ ExternalID_system_tokens @ [TBar] @ ExternalID_public_tokens @ [TClose]"

definition ExternalID_match_text :: jsstring where
  "ExternalID_match_text = js ''^'' @ ExternalID_alt_text"

definition ExternalID_match_ast :: regex where
  "ExternalID_match_ast = Seq LineStart (Alt ExternalID_system_ast ExternalID_public_ast)"

definition ExternalID_match_names :: "(jsstring \<times> nat) list" where
  "ExternalID_match_names =
     [(js ''SystemLiteralOnly'', 1), (js ''PubidLiteral'', 2), (js ''SystemLiteral'', 3)]"

definition ExternalID_sys_text :: jsstring where
  "ExternalID_sys_text = concat [js ''(?:'', SYSTEM, S_text, SystemLiteral_text, js '')'']"

definition ExternalID_sys_tokens :: "token list" where
  "ExternalID_sys_tokens =
     [TOpenNon] @ map TLit SYSTEM @ S_tokens @ SystemLiteral_tokens @ [TClose]"

definition ExternalID_pub_text :: jsstring where
  "ExternalID_pub_text =
     concat [js ''(?:'', PUBLIC, S_text, PubidLiteral_text, S_text, SystemLiteral_text, js '')'']"

definition ExternalID_pub_tokens :: "token list" where
  "ExternalID_pub_tokens =
     [TOpenNon] @ map TLit PUBLIC @ S_tokens @ PubidLiteral_tokens @ S_tokens
       @ SystemLiteral_tokens @ [TClose]"

definition ExternalID_text :: jsstring where
  "ExternalID_text =
     concat [js ''(?:'', ExternalID_sys_text, js ''|'', ExternalID_pub_text, js '')'']"

definition ExternalID_tokens :: "token list" where
  "ExternalID_tokens = [TOpenNon] @ ExternalID_sys_tokens @ [TBar] @ ExternalID_pub_tokens @ [TClose]"

definition ExternalID_ast :: regex where
  "ExternalID_ast =
     Alt (lits SYSTEM (Seq S_ast SystemLiteral_ast))
         (lits PUBLIC (Seq S_ast (Seq PubidLiteral_ast (Seq S_ast SystemLiteral_ast))))"

subsection \<open>Notions about matching\<close>

text \<open>
  \<open>avoids c r\<close>: no character that \<open>r\<close> consumes can be \<open>c\<close>. \<open>consumed c x y\<close>: the state \<open>y\<close>
  is the state \<open>x\<close> moved forward over characters other than \<open>c\<close>.

  \<open>ext t x\<close> is the state \<open>x\<close> with \<open>t\<close> added at the end of the input. \<open>det m r\<close>: from every
  state \<open>r\<close> matches in at most one way, and when it matches, it matches in the same way
  with any text added at the end of the input. \<open>opens_with P r\<close>: \<open>r\<close> starts with a literal
  character that satisfies \<open>P\<close>; \<open>ends_in P r\<close>: it ends with one. \<open>strip r\<close> is \<open>r\<close> without its
  capture groups, \<open>pos x\<close> the position of a state. \<open>close_quote\<close> reads characters of a
  class up to the closing quote, \<open>skip_run\<close> skips the longest run of characters of a class.
\<close>

fun avoids :: "nat \<Rightarrow> regex \<Rightarrow> bool" where
  "avoids c Empty = True"
| "avoids c (Lit d) = (d \<noteq> c)"
| "avoids c (CharSet neg rs) = (\<not> neg \<and> \<not> in_ranges rs c)"
| "avoids c LineStart = True"
| "avoids c LineEnd = True"
| "avoids c (Seq r1 r2) = (avoids c r1 \<and> avoids c r2)"
| "avoids c (Alt r1 r2) = (avoids c r1 \<and> avoids c r2)"
| "avoids c (Repeat r mn mx g) = avoids c r"
| "avoids c (Group i r) = avoids c r"

definition consumed :: "nat \<Rightarrow> mstate \<Rightarrow> mstate \<Rightarrow> bool" where
  "consumed c x y = (\<exists>w. before y = rev w @ before x \<and> after x = w @ after y \<and> c \<notin> set w)"

definition ext :: "nat list \<Rightarrow> mstate \<Rightarrow> mstate" where
  "ext t x = MState (before x) (after x @ t) (caps x)"

definition det :: "bool \<Rightarrow> regex \<Rightarrow> bool" where
  "det m r =
     (\<forall>x. length (ms m r x) \<le> 1
          \<and> (\<forall>t. ms m r x \<noteq> [] \<longrightarrow> ms m r (ext t x) = map (ext t) (ms m r x)))"

fun opens_with :: "(nat \<Rightarrow> bool) \<Rightarrow> regex \<Rightarrow> bool" where
  "opens_with P (Lit c) = P c"
| "opens_with P (Seq r1 r2) = opens_with P r1"
| "opens_with P (Alt r1 r2) = (opens_with P r1 \<and> opens_with P r2)"
| "opens_with P (Group i r) = opens_with P r"
| "opens_with P r = False"

fun ends_in :: "(nat \<Rightarrow> bool) \<Rightarrow> regex \<Rightarrow> bool" where
  "ends_in P (Lit c) = P c"
| "ends_in P (Seq r1 r2) = ends_in P r2"
| "ends_in P (Alt r1 r2) = (ends_in P r1 \<and> ends_in P r2)"
| "ends_in P (Group i r) = ends_in P r"
| "ends_in P r = False"

fun strip :: "regex \<Rightarrow> regex" where
  "strip (Seq r1 r2) = Seq (strip r1) (strip r2)"
| "strip (Alt r1 r2) = Alt (strip r1) (strip r2)"
| "strip (Repeat r mn mx g) = Repeat (strip r) mn mx g"
| "strip (Group i r) = strip r"
| "strip r = r"

definition pos :: "mstate \<Rightarrow> nat list \<times> nat list" where
  "pos x = (before x, after x)"

fun close_quote :: "(nat \<Rightarrow> bool) \<Rightarrow> nat \<Rightarrow> nat list \<Rightarrow> nat list \<Rightarrow> (nat list \<times> nat list) option" where
  "close_quote P q b [] = None"
| "close_quote P q b (d # a) =
     (if d = q then Some (d # b, a) else if P d then close_quote P q (d # b) a else None)"

fun skip_run :: "(nat \<Rightarrow> bool) \<Rightarrow> nat list \<Rightarrow> nat list \<Rightarrow> nat list \<times> nat list" where
  "skip_run P b [] = (b, [])"
| "skip_run P b (d # a) = (if P d then skip_run P (d # b) a else (b, d # a))"

section \<open>Properties\<close>

subsection \<open>Evaluation and the string helpers\<close>

lemmas engine_defs = compile_def parse_tokens_def tokens_def op_token_def esc_token_def
  ok_then_def js_def bsl_def is_hex_def hexnum_def hexval_def ok_cons_def is_syntax_char_def
  escape_lit_def class_atom_of_def is_name_char_def is_digit_def is_line_terminator_def
  close_frame_def RegExp_new_def regexp_exec_def regexp_test_def to_string_def

text \<open>
  The probe, run on the runtime's own class, finds the \<^verbatim>\<open>u\<close> flag exactly when the
  runtime has it.
\<close>

lemma UNICODE_SUPPORT_eq: "UNICODE_SUPPORT uflag = uflag"
  by (cases uflag)
     (simp_all add: UNICODE_SUPPORT_def detectUnicodeSupport_def probe_def RegExp_class_def engine_defs)

lemma find_last_sub_snoc: "find_last_sub [c] (xs @ [c]) = Some (length xs)"
  by (induction xs) auto

lemma lastIndexOf_bracket: "lastIndexOf (a # X @ [c]) [c] = int (Suc (length X))"
  using find_last_sub_snoc[of c "a # X"] by (simp add: lastIndexOf_def)

lemma char_at_0: "char_at s 0 = Some c \<longleftrightarrow> starts_with [c] s"
  by (cases s) (auto simp: char_at_def)

subsection \<open>\<^verbatim>\<open>chars\<close>\<close>

text \<open>
  Claim C3. \<^verbatim>\<open>chars\<close> is a left inverse of class construction: applied to a pattern
  whose source is \<^verbatim>\<open>[\<close> followed by any text \<open>X\<close> followed by \<^verbatim>\<open>]\<close> it returns exactly \<open>X\<close>
  (whatever \<open>X\<close> holds, further brackets included); applied to a pattern whose source
  does not start with \<^verbatim>\<open>[\<close> it raises the usage error.
\<close>

theorem chars_left_inverse:
  "chars \<lparr>source = js ''['' @ X @ js '']'', flags = fl\<rparr> = Inr X
   \<and> (\<not> starts_with (js ''['') (source r) \<longrightarrow> chars r = Inl (Error CannotUseChars))"
proof
  have "slice (0x5B # X @ [0x5D]) 1 (int (Suc (length X))) = X"
    by (simp add: slice_def Let_def)
  then show "chars \<lparr>source = js ''['' @ X @ js '']'', flags = fl\<rparr> = Inr X"
    using lastIndexOf_bracket[of "0x5B" X "0x5D"]
    by (simp add: chars_def js_def char_at_def)
next
  show "\<not> starts_with (js ''['') (source r) \<longrightarrow> chars r = Inl (Error CannotUseChars)"
    by (simp add: chars_def char_at_0 js_def)
qed

theorem chars_left_inverse_witness:
  "chars \<lparr>source = js ''['' @ js ''a-z'' @ js '']'', flags = []\<rparr> = Inr (js ''a-z'')
   \<and> \<not> starts_with (js ''['') (source (regexp_literal (js ''a+'')))
   \<and> chars (regexp_literal (js ''a+'')) = Inl (Error CannotUseChars)"
  using chars_left_inverse[of "js ''a-z''" "[]" "regexp_literal (js ''a+'')"]
  by (simp add: js_def regexp_literal_def)

subsection \<open>The capability probe\<close>

text \<open>
  Claim C4. Whatever class is injected into \<^verbatim>\<open>detectUnicodeSupport\<close>: when its constructor
  throws on the probe pattern, or its \<^verbatim>\<open>exec\<close> throws on the probe input, the result is
  \<^verbatim>\<open>false\<close> (the result is a boolean in every case: no exception leaves the function);
  when \<^verbatim>\<open>exec\<close> returns a match, the result is \<^verbatim>\<open>true\<close> exactly when the matched segment
  \<^verbatim>\<open>match[0]\<close> has length 2, the code units of one surrogate pair.
\<close>

theorem probe_absorbs_errors:
  "(RegExpImpl [0xD834, 0xDF06] ''u'' = Inl e \<longrightarrow> \<not> detectUnicodeSupport uflag (Some RegExpImpl))
   \<and> (RegExpImpl [0xD834, 0xDF06] ''u'' = Inr exec \<and> exec [0xD834, 0xDF06] = Inl e
        \<longrightarrow> \<not> detectUnicodeSupport uflag (Some RegExpImpl))
   \<and> (RegExpImpl [0xD834, 0xDF06] ''u'' = Inr exec \<and> exec [0xD834, 0xDF06] = Inr (Some (Some m0 # rest))
        \<longrightarrow> detectUnicodeSupport uflag (Some RegExpImpl) = (length m0 = 2))"
  by (simp add: detectUnicodeSupport_def probe_def)

text \<open>
  Four injected classes: the runtime's class without the \<^verbatim>\<open>u\<close> flag (the constructor
  throws), a class whose \<^verbatim>\<open>exec\<close> throws, a class that matches the whole input (two code
  units), and one that matches its first code unit only.
\<close>

theorem probe_absorbs_errors_witness:
  "RegExp_class False [0xD834, 0xDF06] ''u'' = Inl SyntaxError
   \<and> \<not> detectUnicodeSupport True (Some (RegExp_class False))
   \<and> \<not> detectUnicodeSupport True (Some (\<lambda>p fl. Inr (\<lambda>s. Inl TypeError)))
   \<and> detectUnicodeSupport False (Some (\<lambda>p fl. Inr (\<lambda>s. Inr (Some [Some s]))))
   \<and> \<not> detectUnicodeSupport True (Some (\<lambda>p fl. Inr (\<lambda>s. Inr (Some [Some (take 1 s)]))))"
proof -
  have a: "RegExp_class False [0xD834, 0xDF06] ''u'' = Inl SyntaxError"
    by (simp add: RegExp_class_def RegExp_new_def)
  show ?thesis
    using a
      probe_absorbs_errors[where RegExpImpl = "RegExp_class False" and e = SyntaxError
        and uflag = True]
      probe_absorbs_errors[where RegExpImpl = "\<lambda>p fl. Inr (\<lambda>s. Inl TypeError)" and e = TypeError
        and uflag = True and exec = "\<lambda>s. Inl TypeError"]
      probe_absorbs_errors[where RegExpImpl = "\<lambda>p fl. Inr (\<lambda>s. Inr (Some [Some s]))"
        and uflag = False and exec = "\<lambda>s. Inr (Some [Some s])" and ?m0.0 = "[0xD834, 0xDF06]"
        and rest = "[]"]
      probe_absorbs_errors[where RegExpImpl = "\<lambda>p fl. Inr (\<lambda>s. Inr (Some [Some (take 1 s)]))"
        and uflag = True and exec = "\<lambda>s. Inr (Some [Some (take 1 s)])" and ?m0.0 = "[0xD834]"
        and rest = "[]"]
    by simp
qed

subsection \<open>The combinators\<close>

lemma RegExp_new_no_usage: "RegExp_new uflag p fl \<noteq> Inl (Error u)"
  by (simp add: RegExp_new_def split: res.splits)

lemma RegExp_new_flags:
  "RegExp_new uflag p fl = Inr r \<Longrightarrow> flags r = filter (\<lambda>c. c \<in> set fl) ''mu''"
  by (auto simp: RegExp_new_def split: res.splits if_splits)

lemma map_parts_regg: "map_parts (reg_part False) args = Inr (map part_text args)"
  by (induction args) (auto simp: part_text_def split: part.splits)

lemma map_parts_reg:
  "map_parts (reg_part True) args =
     (if Str (js ''|'') \<in> set args then Inl (Error UseReggInstead) else Inr (map part_text args))"
proof (induction args)
  case Nil
  show ?case by simp
next
  case (Cons p ps)
  show ?case
  proof (cases p)
    case (Str s)
    then show ?thesis using Cons by auto (simp_all add: part_text_def)
  next
    case (Pat r)
    then show ?thesis using Cons by (auto simp: part_text_def)
  qed
qed




text \<open>
  Claim C9 (amended). The guard compares each argument with the one-character string
  \<^verbatim>\<open>|\<close>: when no argument is that string, \<^verbatim>\<open>reg\<close> raises no usage error and hands the
  verbatim concatenation of the arguments to the runtime's constructor, and its outcome
  is the constructor's outcome on that text. For \<^verbatim>\<open>'a|b'\<close> that is the pattern \<^verbatim>\<open>a|b\<close>, which
  matches \<^verbatim>\<open>b\<close>; for \<^verbatim>\<open>reg('x', 'a|b')\<close> it is the pattern \<^verbatim>\<open>xa|b\<close>, which matches \<^verbatim>\<open>b\<close> as
  well: the alternation is not grouped, it splits the whole pattern. For \<^verbatim>\<open>'|*'\<close> the outcome
  is the constructor's \<^verbatim>\<open>SyntaxError\<close>.
\<close>

theorem reg_bar_inside_literal:
  "(Str (js ''|'') \<notin> set args \<longrightarrow>
      reg uflag args = RegExp_new uflag (concat (map part_text args))
                         (if UNICODE_SUPPORT uflag then ''mu'' else ''m'')
      \<and> reg uflag args \<noteq> Inl (Error u))
   \<and> reg uflag [Str (js ''a|b'')] = Inr \<lparr>source = js ''a|b'', flags = (if uflag then ''mu'' else ''m'')\<rparr>
   \<and> regexp_test \<lparr>source = js ''a|b'', flags = (if uflag then ''mu'' else ''m'')\<rparr> (js ''b'') = Inr True
   \<and> reg uflag [Str (js ''x''), Str (js ''a|b'')] =
        Inr \<lparr>source = js ''xa|b'', flags = (if uflag then ''mu'' else ''m'')\<rparr>
   \<and> regexp_test \<lparr>source = js ''xa|b'', flags = (if uflag then ''mu'' else ''m'')\<rparr> (js ''b'') = Inr True
   \<and> reg uflag [Str (js ''|*'')] = Inl SyntaxError"
proof (intro conjI impI)
  assume "Str (js ''|'') \<notin> set args"
  then show eq: "reg uflag args = RegExp_new uflag (concat (map part_text args))
                         (if UNICODE_SUPPORT uflag then ''mu'' else ''m'')"
    by (simp add: reg_def reg_apply_def map_parts_reg)
  show "reg uflag args \<noteq> Inl (Error u)"
    unfolding eq by (rule RegExp_new_no_usage)
next
  show "reg uflag [Str (js ''a|b'')] = Inr \<lparr>source = js ''a|b'', flags = (if uflag then ''mu'' else ''m'')\<rparr>"
    by (cases uflag) (simp_all add: reg_def reg_apply_def UNICODE_SUPPORT_eq engine_defs)
  show "regexp_test \<lparr>source = js ''a|b'', flags = (if uflag then ''mu'' else ''m'')\<rparr> (js ''b'') = Inr True"
    by (cases uflag) (simp_all add: engine_defs)
  show "reg uflag [Str (js ''x''), Str (js ''a|b'')] =
        Inr \<lparr>source = js ''xa|b'', flags = (if uflag then ''mu'' else ''m'')\<rparr>"
    by (cases uflag) (simp_all add: reg_def reg_apply_def UNICODE_SUPPORT_eq engine_defs)
  show "regexp_test \<lparr>source = js ''xa|b'', flags = (if uflag then ''mu'' else ''m'')\<rparr> (js ''b'') = Inr True"
    by (cases uflag) (simp_all add: engine_defs)
  show "reg uflag [Str (js ''|*'')] = Inl SyntaxError"
    by (cases uflag) (simp_all add: reg_def reg_apply_def UNICODE_SUPPORT_eq engine_defs)
qed

theorem reg_bar_inside_literal_witness:
  "Str (js ''|'') \<notin> set [Str (js ''a|b''), Str (js ''c'')]
   \<and> reg True [Str (js ''a|b''), Str (js ''c'')] =
       RegExp_new True (concat (map part_text [Str (js ''a|b''), Str (js ''c'')]))
         (if UNICODE_SUPPORT True then ''mu'' else ''m'')
   \<and> reg True [Str (js ''a|b''), Str (js ''c'')] \<noteq> Inl (Error UseReggInstead)"
proof -
  have a: "Str (js ''|'') \<notin> set [Str (js ''a|b''), Str (js ''c'')]"
    by (simp add: js_def)
  show ?thesis
    using a reg_bar_inside_literal[where args = "[Str (js ''a|b''), Str (js ''c'')]"
        and uflag = True and u = UseReggInstead]
    by blast
qed

text \<open>
  The claim as stated fails: the string \<^verbatim>\<open>|*\<close> contains \<^verbatim>\<open>|\<close> together with another
  character, it passes the guard, and the runtime rejects the text (a quantifier with
  nothing to repeat), so \<^verbatim>\<open>reg('|*')\<close> ends in a \<^verbatim>\<open>SyntaxError\<close>.
\<close>

theorem reg_bar_inside_literal_counterexample:
  "0x7C \<in> set (js ''|*'') \<and> js ''|*'' \<noteq> js ''|''
   \<and> reg True [Str (js ''|*'')] = Inl SyntaxError
   \<and> reg False [Str (js ''|*'')] = Inl SyntaxError"
  by (simp add: reg_def reg_apply_def UNICODE_SUPPORT_eq engine_defs)

text \<open>
  Claim C2 (amended). The patterns \<^verbatim>\<open>reg\<close> and \<^verbatim>\<open>regg\<close> return satisfy the flag
  invariant. The pattern \<^verbatim>\<open>chars_without\<close> returns carries the unicode flag exactly when
  the Capability Flag holds and never the case-insensitive flag, and it does not carry the
  multiline flag.
\<close>

theorem flags_of_combinators:
  "(reg uflag args = Inr r \<longrightarrow> flag_invariant uflag r)
   \<and> (regg uflag args = Inr r \<longrightarrow> flag_invariant uflag r)
   \<and> (chars_without uflag regexp search = Inr r \<longrightarrow>
        \<not> has_flag r CHR ''m'' \<and> (has_flag r CHR ''u'' \<longleftrightarrow> UNICODE_SUPPORT uflag)
        \<and> \<not> has_flag r CHR ''i'')"
proof (intro conjI impI)
  have ra: "flag_invariant uflag r" if "reg_apply su uflag as = Inr r" for su as
    using that RegExp_new_flags[of uflag _ "if UNICODE_SUPPORT uflag then ''mu'' else ''m''" r]
    by (auto simp: reg_apply_def flag_invariant_def has_flag_def split: sum.splits if_splits)
  show "flag_invariant uflag r" if "reg uflag args = Inr r"
    using that ra by (simp add: reg_def)
  show "flag_invariant uflag r" if "regg uflag args = Inr r"
    using that ra by (auto simp: regg_def split: if_splits)
  assume "chars_without uflag regexp search = Inr r"
  then have "flags r = filter (\<lambda>c. c \<in> set (if UNICODE_SUPPORT uflag then ''u'' else [])) ''mu''"
    using RegExp_new_flags[of uflag _ "if UNICODE_SUPPORT uflag then ''u'' else []" r]
    by (auto simp: chars_without_def split: if_splits jsvalue.splits)
  then show "\<not> has_flag r CHR ''m''" "has_flag r CHR ''u'' \<longleftrightarrow> UNICODE_SUPPORT uflag"
    "\<not> has_flag r CHR ''i''"
    by (auto simp: has_flag_def)
qed

theorem flags_of_combinators_witness:
  "reg True [Str (js ''a''), Str (js ''*'')] = Inr \<lparr>source = js ''a*'', flags = ''mu''\<rparr>
   \<and> flag_invariant True \<lparr>source = js ''a*'', flags = ''mu''\<rparr>
   \<and> regg False [Str (js ''a'')] = Inr \<lparr>source = js ''(?:a)'', flags = ''m''\<rparr>
   \<and> flag_invariant False \<lparr>source = js ''(?:a)'', flags = ''m''\<rparr>
   \<and> chars_without True (regexp_literal (js ''[ab]'')) (JString (js ''a'')) =
        Inr \<lparr>source = js ''[b]'', flags = ''u''\<rparr>
   \<and> \<not> has_flag \<lparr>source = js ''[b]'', flags = ''u''\<rparr> CHR ''m''"
proof -
  have a: "reg True [Str (js ''a''), Str (js ''*'')] = Inr \<lparr>source = js ''a*'', flags = ''mu''\<rparr>"
    by (simp add: reg_def reg_apply_def UNICODE_SUPPORT_eq engine_defs)
  have b: "regg False [Str (js ''a'')] = Inr \<lparr>source = js ''(?:a)'', flags = ''m''\<rparr>"
    by (simp add: regg_def reg_apply_def UNICODE_SUPPORT_eq engine_defs)
  have c: "chars_without True (regexp_literal (js ''[ab]'')) (JString (js ''a'')) =
        Inr \<lparr>source = js ''[b]'', flags = ''u''\<rparr>"
    by (simp add: chars_without_def regexp_literal_def char_at_def indexOf_def replace_def
          UNICODE_SUPPORT_eq engine_defs)
  show ?thesis
    using a b c
      flags_of_combinators[where uflag = True and args = "[Str (js ''a''), Str (js ''*'')]"
        and r = "\<lparr>source = js ''a*'', flags = ''mu''\<rparr>"]
      flags_of_combinators[where uflag = False and args = "[Str (js ''a'')]"
        and r = "\<lparr>source = js ''(?:a)'', flags = ''m''\<rparr>"]
      flags_of_combinators[where uflag = True and r = "\<lparr>source = js ''[b]'', flags = ''u''\<rparr>"
        and regexp = "regexp_literal (js ''[ab]'')" and search = "JString (js ''a'')"]
    by blast
qed

text \<open>
  The claim as stated fails at the module's own call \<^verbatim>\<open>chars_without(NameStartChar, ':')\<close>:
  the pattern it returns has the flag \<^verbatim>\<open>u\<close> alone.
\<close>

theorem chars_without_flags_counterexample:
  "(case NCNameStartChar True of Inr r \<Rightarrow> \<not> flag_invariant True r | Inl e \<Rightarrow> False)"
  by (simp add: NCNameStartChar_def NameStartChar_def NameStartChar_literal_def bindE_def
        regE_def strE_def str_def reg_def reg_apply_def chars_def slice_def lastIndexOf_def
        chars_without_def regexp_literal_def char_at_def indexOf_def replace_def
        flag_invariant_def has_flag_def UNICODE_SUPPORT_eq engine_defs)

subsection \<open>\<^verbatim>\<open>chars_without\<close>\<close>

lemma starts_with_prefix: "starts_with t s \<longleftrightarrow> prefix t s"
  by (induction t s rule: starts_with.induct) auto

lemma find_sub_None: "find_sub t s = None \<longleftrightarrow> \<not> sublist t s"
  by (induction s) (auto simp: starts_with_prefix sublist_Cons_right)

lemma find_sub_Some:
  "find_sub t s = Some i \<Longrightarrow> t \<noteq> [] \<Longrightarrow>
     s = take i s @ t @ drop (i + length t) s \<and> \<not> sublist t (take i s @ butlast t)"
proof (induction s arbitrary: i)
  case Nil
  then show ?case by (auto split: if_splits)
next
  case (Cons x xs)
  have nb: "\<not> sublist t (butlast t)"
    using Cons.prems(2) sublist_length_le[of t "butlast t"] by (cases t rule: rev_cases) auto
  show ?case
  proof (cases "starts_with t (x # xs)")
    case True
    then have "i = 0" using Cons.prems by simp
    moreover obtain q where "x # xs = t @ q"
      using True by (auto simp: starts_with_prefix prefix_def)
    ultimately show ?thesis
      using nb by auto
  next
    case False
    then obtain j where j: "find_sub t xs = Some j" "i = Suc j"
      using Cons.prems by auto
    from Cons.IH[OF j(1) Cons.prems(2)] have ih: "xs = take j xs @ t @ drop (j + length t) xs"
      "\<not> sublist t (take j xs @ butlast t)" by auto
    have "\<not> prefix t (x # take j xs @ butlast t)"
    proof
      assume p: "prefix t (x # take j xs @ butlast t)"
      have "xs = (take j xs @ butlast t) @ (last t # drop (j + length t) xs)"
        using ih(1) Cons.prems(2) by (metis append_butlast_last_id append_Cons append_assoc append_Nil)
      then have "prefix (x # take j xs @ butlast t) (x # xs)"
        by (metis Cons_prefix_Cons prefixI)
      then have "prefix t (x # xs)" using p prefix_order.order_trans by blast
      then show False using False by (simp add: starts_with_prefix)
    qed
    then show ?thesis using ih j(2) by (auto simp: sublist_Cons_right)
  qed
qed

lemma find_sub_Some_0: "find_sub t s = Some 0 \<longleftrightarrow> starts_with t s"
  by (cases s; cases t) (auto split: if_splits)

lemma indexOf_hyphen:
  assumes "starts_with (js ''['') src"
  shows "indexOf src (js ''-'') = 1 \<longleftrightarrow> starts_with (js ''[-'') src"
proof -
  obtain rest where src: "src = 0x5B # rest"
    using assms by (cases src) (auto simp: js_def)
  have "find_sub [0x2D] src = map_option Suc (find_sub [0x2D] rest)"
    by (simp add: src)
  moreover have "find_sub [0x2D] rest = Some 0 \<longleftrightarrow> starts_with [0x2D] rest"
    by (rule find_sub_Some_0)
  ultimately show ?thesis
    by (cases "find_sub [0x2D::nat] rest") (auto simp: indexOf_def js_def src)
qed

text \<open>
  Claim C1 (amended). \<^verbatim>\<open>chars_without\<close> raises a usage error exactly when: the source does
  not start with \<^verbatim>\<open>[\<close>; or the token is not a string or is empty; or the token does not
  occur in the source (the whole source: the delimiters and whatever follows the class
  count); or the token is \<^verbatim>\<open>-\<close> and the source does not start with \<^verbatim>\<open>[-\<close>. In every other
  case it hands the source with the first occurrence of the token removed to the runtime,
  with the flag \<^verbatim>\<open>u\<close> when the Capability Flag holds and no flag otherwise; what it returns
  is what the runtime makes of that text.
\<close>

theorem chars_without_errors:
  "((\<exists>u. chars_without uflag regexp search = Inl (Error u)) \<longleftrightarrow>
      (\<not> starts_with (js ''['') (source regexp)
       \<or> (case search of
             JString token \<Rightarrow>
               token = [] \<or> \<not> sublist token (source regexp)
               \<or> (token = js ''-'' \<and> \<not> starts_with (js ''[-'') (source regexp))
           | _ \<Rightarrow> True)))
   \<and> ((\<forall>u. chars_without uflag regexp (JString token) \<noteq> Inl (Error u)) \<longrightarrow>
        (\<exists>p q. source regexp = p @ token @ q \<and> \<not> sublist token (p @ butlast token)
               \<and> chars_without uflag regexp (JString token) =
                   RegExp_new uflag (p @ q) (if UNICODE_SUPPORT uflag then ''u'' else [])))"
proof (intro conjI impI)
  show "(\<exists>u. chars_without uflag regexp search = Inl (Error u)) \<longleftrightarrow>
      (\<not> starts_with (js ''['') (source regexp)
       \<or> (case search of
             JString token \<Rightarrow>
               token = [] \<or> \<not> sublist token (source regexp)
               \<or> (token = js ''-'' \<and> \<not> starts_with (js ''[-'') (source regexp))
           | _ \<Rightarrow> True))"
  proof (cases "starts_with (js ''['') (source regexp)")
    case False
    then show ?thesis by (simp add: chars_without_def char_at_0 js_def)
  next
    case True
    then have c0: "char_at (source regexp) 0 = Some 0x5B" by (simp add: char_at_0 js_def)
    show ?thesis
    proof (cases search)
      case (JString s)
      have "indexOf (source regexp) s = - 1 \<longleftrightarrow> \<not> sublist s (source regexp)"
        using find_sub_None[of s "source regexp"]
        by (auto simp: indexOf_def split: option.splits)
      then show ?thesis
        using True c0 JString indexOf_hyphen[OF True] RegExp_new_no_usage
        by (auto simp: chars_without_def)
    qed (simp_all add: chars_without_def c0 True)
  qed
next
  assume ok: "\<forall>u. chars_without uflag regexp (JString token) \<noteq> Inl (Error u)"
  then have c0: "char_at (source regexp) 0 = Some 0x5B"
    by (auto simp: chars_without_def split: if_splits)
  from ok have ne: "indexOf (source regexp) token \<noteq> - 1"
    by (auto simp: chars_without_def c0 split: if_splits)
  then obtain i where i: "find_sub token (source regexp) = Some i"
    by (auto simp: indexOf_def split: option.splits)
  from ok have "chars_without uflag regexp (JString token) =
      RegExp_new uflag (replace (source regexp) token []) (if UNICODE_SUPPORT uflag then ''u'' else [])"
    by (auto simp: chars_without_def c0 split: if_splits)
  then have "chars_without uflag regexp (JString token) =
      RegExp_new uflag (take i (source regexp) @ drop (i + length token) (source regexp))
        (if UNICODE_SUPPORT uflag then ''u'' else [])"
    by (simp add: replace_def i)
  moreover note find_sub_Some[OF i]
  moreover from ok have "token \<noteq> []"
    by (auto simp: chars_without_def c0 split: if_splits)
  ultimately show "\<exists>p q. source regexp = p @ token @ q \<and> \<not> sublist token (p @ butlast token)
               \<and> chars_without uflag regexp (JString token) =
                   RegExp_new uflag (p @ q) (if UNICODE_SUPPORT uflag then ''u'' else [])"
    by blast
qed


theorem chars_without_errors_witness:
  "(\<exists>u. chars_without True (regexp_literal (js ''[az-]'')) (JString (js ''-'')) = Inl (Error u))
   \<and> (\<forall>u. chars_without True (regexp_literal (js ''[-az]'')) (JString (js ''-'')) \<noteq> Inl (Error u))
   \<and> (\<exists>p q. source (regexp_literal (js ''[-az]'')) = p @ js ''-'' @ q
          \<and> \<not> sublist (js ''-'') (p @ butlast (js ''-''))
          \<and> chars_without True (regexp_literal (js ''[-az]'')) (JString (js ''-'')) =
               RegExp_new True (p @ q) (if UNICODE_SUPPORT True then ''u'' else []))"
proof -
  have a: "\<not> starts_with (js ''[-'') (source (regexp_literal (js ''[az-]'')))"
    by (simp add: js_def regexp_literal_def)
  have b: "\<forall>u. chars_without True (regexp_literal (js ''[-az]'')) (JString (js ''-'')) \<noteq> Inl (Error u)"
    by (simp add: chars_without_def regexp_literal_def char_at_def indexOf_def replace_def
          UNICODE_SUPPORT_eq engine_defs)
  show ?thesis
    using a b
      chars_without_errors[of True "regexp_literal (js ''[az-]'')" "JString (js ''-'')" "js ''-''"]
      chars_without_errors[of True "regexp_literal (js ''[-az]'')" "JString (js ''-'')" "js ''-''"]
    by simp
qed

text \<open>
  The claim as stated fails in both directions. The token \<^verbatim>\<open>+\<close> does not occur in the class
  body of \<^verbatim>\<open>/[a-z]+/\<close>, yet \<^verbatim>\<open>chars_without\<close> raises nothing and returns \<^verbatim>\<open>/[a-z]/u\<close>.
  The token \<^verbatim>\<open>]\<close> meets none of the four conditions for the pattern whose source is
  \<^verbatim>\<open>[a\]]\<close>, yet no pattern is returned: removing the first \<^verbatim>\<open>]\<close> leaves an unclosed class,
  which the runtime rejects with a \<^verbatim>\<open>SyntaxError\<close>.
\<close>

theorem chars_without_spec_counterexample:
  "subtract_literal_raises (regexp_literal (js ''[a-z]+'')) (JString (js ''+''))
   \<and> chars_without True (regexp_literal (js ''[a-z]+'')) (JString (js ''+'')) =
        Inr \<lparr>source = js ''[a-z]'', flags = ''u''\<rparr>
   \<and> \<not> subtract_literal_raises (regexp_literal (js ''[a'' @ bsl '']]'')) (JString (js '']''))
   \<and> chars_without True (regexp_literal (js ''[a'' @ bsl '']]'')) (JString (js '']'')) = Inl SyntaxError"
  by (simp add: subtract_literal_raises_def class_body_def slice_def lastIndexOf_def
        chars_without_def regexp_literal_def char_at_def indexOf_def replace_def
        UNICODE_SUPPORT_eq engine_defs sublist_Cons_right)

subsection \<open>Tokens of a concatenation\<close>

text \<open>
  The lexical passes distribute over concatenation: the tokens of a concatenation of
  pieces are the concatenation of their tokens.
\<close>

lemma ok_append_simps [simp]:
  "ok_append [] r = r"
  "ok_append xs (Ok ys) = Ok (xs @ ys)"
  "ok_append xs Invalid = Invalid"
  "ok_append xs Unsupported = Unsupported"
  "ok_append (x # xs) r = ok_cons x (ok_append xs r)"
  by (auto simp: ok_append_def ok_cons_def split: res.splits)

lemma ok_cons_eq_Ok: "ok_cons x r = Ok zs \<longleftrightarrow> (\<exists>ys. r = Ok ys \<and> zs = x # ys)"
  by (auto simp: ok_cons_def split: res.splits)

lemma ok_then_eq_Ok: "ok_then t r = Ok zs \<longleftrightarrow> (\<exists>x ys. t = Ok x \<and> r = Ok ys \<and> zs = x # ys)"
  by (auto simp: ok_then_def ok_cons_def split: res.splits)

lemma ok_then_Ok: "ok_then (Ok x) r = ok_cons x r"
  by (simp add: ok_then_def)

lemma unescape_append:
  "unescape u md xs = Ok ps \<Longrightarrow> ps = [] \<or> \<not> lead_code (last ps) \<Longrightarrow>
     unescape u md (xs @ ys) = ok_append ps (unescape u UNormal ys)"
proof (induction u md xs arbitrary: ps rule: unescape.induct)
  case (1 u)
  then show ?case by simp
next
  case (2 u ds)
  then show ?case by simp
next
  case (3 u ds c cs)
  then show ?case
    by (auto simp: ok_cons_eq_Ok split: if_splits)
next
  case (4 u c cs)
  show ?case
  proof (cases "c = 0x5C")
    case False
    with 4 show ?thesis
      by (auto simp: ok_cons_eq_Ok lead_code_def split: if_splits)
  next
    case bs: True
    show ?thesis
    proof (cases cs)
      case Nil
      with "4.prems" bs show ?thesis by simp
    next
      case esc: (Cons e cs1)
      consider (hex) "e = 0x78" | (uni) "e \<noteq> 0x78" "e = 0x75" | (single) "e \<noteq> 0x78" "e \<noteq> 0x75"
        by blast
      then show ?thesis
      proof cases
        case hex
        with 4 bs esc show ?thesis
          by (auto simp: ok_cons_eq_Ok lead_code_def hexnum_def hexval_def is_hex_def
                   split: if_splits list.splits)
      next
        case single
        with 4 bs esc show ?thesis
          by (auto simp: ok_cons_eq_Ok lead_code_def split: if_splits)
      next
        case uni
        show ?thesis
        proof (cases cs1)
          case Nil
          with "4.prems" bs esc uni show ?thesis by simp
        next
          case d1: (Cons h1 cs2)
          show ?thesis
          proof (cases "h1 = 0x7B")
            case True
            with 4 bs esc uni d1 show ?thesis
              by (auto simp: ok_cons_eq_Ok lead_code_def split: if_splits)
          next
            case nb: False
            show ?thesis
            proof (cases "\<exists>h2 h3 h4 cs3. cs2 = h2 # h3 # h4 # cs3")
              case False
              then have "unescape u UNormal (c # cs) = Unsupported"
                using bs esc uni d1 nb by (auto split: list.splits)
              with "4.prems" show ?thesis by simp
            next
              case True
              then obtain h2 h3 h4 cs3 where d4: "cs2 = h2 # h3 # h4 # cs3"
                by blast
              let ?v = "hexnum [h1, h2, h3, h4]"
              show ?thesis
              proof (cases "is_hex h1 \<and> is_hex h2 \<and> is_hex h3 \<and> is_hex h4")
                case False
                with "4.prems" bs esc uni d1 nb d4 show ?thesis by auto
              next
                case hx: True
                show ?thesis
                proof (cases "u \<and> 0xD800 \<le> ?v \<and> ?v \<le> 0xDBFF")
                  case False
                  with 4 bs esc uni d1 nb d4 hx show ?thesis
                    by (auto simp: ok_cons_eq_Ok lead_code_def split: if_splits)
                next
                  case lead: True
                  from "4.prems"(1) bs esc uni d1 nb d4 hx lead obtain r where
                    r: "take 2 cs3 \<noteq> [0x5C, 0x75]" "unescape u UNormal cs3 = Ok r" "ps = Code ?v # r"
                    by (auto simp: ok_cons_eq_Ok split: if_splits)
                  from "4.prems"(2) r(3) lead have "r \<noteq> []"
                    by (auto simp: lead_code_def)
                  with r(2) have "cs3 \<noteq> []" "cs3 \<noteq> [0x5C]"
                    by auto
                  with r(1) have "take 2 (cs3 @ ys) \<noteq> [0x5C, 0x75]"
                    by (cases cs3; cases "tl cs3") auto
                  moreover have "unescape u UNormal (cs3 @ ys) = ok_append r (unescape u UNormal ys)"
                    using "4.IH" bs esc uni d1 nb d4 hx lead r "4.prems"(2) \<open>r \<noteq> []\<close>
                    by (auto split: if_splits)
                  ultimately show ?thesis
                    using bs esc uni d1 nb d4 hx lead r by simp
                qed
              qed
            qed
          qed
        qed
      qed
    qed
  qed
qed

lemma last_tl: "ps = [] \<or> last (t # ps) \<noteq> x \<Longrightarrow> ps = [] \<or> last ps \<noteq> x"
  by auto

lemma lex_append:
  "lex u md ps = Ok ts \<Longrightarrow> ps = [] \<or> last ps \<noteq> Raw 0x28 \<Longrightarrow>
     lex u md (ps @ qs) = ok_append ts (lex u Top qs)"
proof (induction u md ps arbitrary: ts rule: lex.induct)
  case (1 u)
  then show ?case by simp
next
  case (2 u neg rs st)
  then show ?case by simp
next
  case (3 u acc)
  then show ?case by simp
next
  case (4 u t ts')
  have side: "ts' = [] \<or> last ts' \<noteq> Raw 0x28"
    using "4.prems"(2) by (auto split: if_splits)
  show ?case
  proof (cases t)
    case (Code v)
    with "4.prems"(1) obtain r where r: "lex u Top ts' = Ok r" "ts = TLit v # r"
      by (auto simp: ok_cons_eq_Ok)
    from "4.IH"(14)[OF Code r(1) side] show ?thesis
      using Code r by simp
  next
    case (Esc e)
    with "4.prems"(1) obtain x r where r: "esc_token e = Ok x" "lex u Top ts' = Ok r" "ts = x # r"
      by (auto simp: ok_then_eq_Ok)
    from "4.IH"(13)[OF Esc r(2) side] show ?thesis
      using Esc r by (simp add: ok_then_Ok)
  next
    case (Raw c)
    consider (cls) "c = 0x5B" | (grp) "c \<noteq> 0x5B" "c = 0x28" | (op) "c \<noteq> 0x5B" "c \<noteq> 0x28"
      by blast
    then show ?thesis
    proof cases
      case op
      with "4.prems"(1) Raw obtain x r where
        r: "op_token u c = Ok x" "lex u Top ts' = Ok r" "ts = x # r"
        by (auto simp: ok_then_eq_Ok)
      from "4.IH"(12)[OF Raw op r(2) side] show ?thesis
        using Raw op r by (simp add: ok_then_Ok)
    next
      case cls
      show ?thesis
      proof (cases ts')
        case Nil
        then show ?thesis using "4.prems"(1) Raw cls by simp
      next
        case (Cons d ts1)
        show ?thesis
        proof (cases "d = Raw 0x5E")
          case True
          have l: "lex u (Cls True [] CNone) ts1 = Ok ts"
            using "4.prems"(1) Raw cls Cons True by simp
          have "ts1 = [] \<or> last ts1 \<noteq> Raw 0x28"
            using side Cons by (auto split: if_splits)
          from "4.IH"(2)[OF Raw cls Cons True refl l this] show ?thesis
            using Raw cls Cons True by simp
        next
          case False
          have l: "lex u (Cls False [] CNone) ts' = Ok ts"
            using "4.prems"(1) Raw cls Cons False by (cases d) (auto split: if_splits)
          have "lex u (Cls False [] CNone) (ts' @ qs) = ok_append ts (lex u Top qs)"
          proof (cases d)
            case (Raw x)
            then have "x \<noteq> 0x5E" using False by simp
            from "4.IH"(3)[OF \<open>t = Raw c\<close> cls Cons Raw this l side] show ?thesis .
          next
            case (Esc x)
            from "4.IH"(4)[OF \<open>t = Raw c\<close> cls Cons Esc l side] show ?thesis .
          next
            case (Code x)
            from "4.IH"(5)[OF \<open>t = Raw c\<close> cls Cons Code l side] show ?thesis .
          qed
          then show ?thesis
            using Raw cls Cons False by (cases d) (auto split: if_splits)
        qed
      qed
    next
      case grp
      show ?thesis
      proof (cases ts')
        case Nil
        then show ?thesis using "4.prems"(2) Raw grp by simp
      next
        case (Cons d ts1)
        show ?thesis
        proof (cases "d = Raw 0x3F")
          case False
          with "4.prems"(1) Raw grp Cons obtain r where
            r: "lex u Top ts' = Ok r" "ts = TOpenCap None # r"
            by (cases d) (auto simp: ok_cons_eq_Ok split: if_splits)
          have "lex u Top (ts' @ qs) = ok_append r (lex u Top qs)"
          proof (cases d)
            case (Raw x)
            then have "x \<noteq> 0x3F" using False by simp
            from "4.IH"(9)[OF \<open>t = Raw c\<close> grp Cons Raw this r(1) side] show ?thesis .
          next
            case (Esc x)
            from "4.IH"(10)[OF \<open>t = Raw c\<close> grp Cons Esc r(1) side] show ?thesis .
          next
            case (Code x)
            from "4.IH"(11)[OF \<open>t = Raw c\<close> grp Cons Code r(1) side] show ?thesis .
          qed
          then show ?thesis
            using Raw grp Cons False r by (cases d) (auto split: if_splits)
        next
          case True
          show ?thesis
          proof (cases ts1)
            case Nil
            then show ?thesis using "4.prems"(1) Raw grp Cons True by simp
          next
            case (Cons k ts2)
            have side2: "ts2 = [] \<or> last ts2 \<noteq> Raw 0x28"
              using side \<open>ts' = d # ts1\<close> Cons by (auto split: if_splits)
            show ?thesis
            proof (cases k)
              case (Raw x)
              consider (non) "x = 0x3A" | (nam) "x \<noteq> 0x3A" "x = 0x3C" | (oth) "x \<noteq> 0x3A" "x \<noteq> 0x3C"
                by blast
              then show ?thesis
              proof cases
                case non
                with "4.prems"(1) \<open>t = Raw c\<close> grp \<open>ts' = d # ts1\<close> True Cons Raw obtain r where
                  r: "lex u Top ts2 = Ok r" "ts = TOpenNon # r"
                  by (auto simp: ok_cons_eq_Ok)
                from "4.IH"(7)[OF \<open>t = Raw c\<close> grp \<open>ts' = d # ts1\<close> True refl Cons Raw non r(1) side2]
                show ?thesis
                  using \<open>t = Raw c\<close> grp \<open>ts' = d # ts1\<close> True Cons Raw non r by simp
              next
                case nam
                with "4.prems"(1) \<open>t = Raw c\<close> grp \<open>ts' = d # ts1\<close> True Cons Raw have
                  r: "lex u (GName []) ts2 = Ok ts"
                  by auto
                from "4.IH"(8)[OF \<open>t = Raw c\<close> grp \<open>ts' = d # ts1\<close> True refl Cons Raw nam r side2]
                show ?thesis
                  using \<open>t = Raw c\<close> grp \<open>ts' = d # ts1\<close> True Cons Raw nam by simp
              next
                case oth
                then show ?thesis
                  using "4.prems"(1) \<open>t = Raw c\<close> grp \<open>ts' = d # ts1\<close> True Cons Raw by simp
              qed
            next
              case (Esc x)
              then show ?thesis
                using "4.prems"(1) \<open>t = Raw c\<close> grp \<open>ts' = d # ts1\<close> True Cons by simp
            next
              case (Code x)
              then show ?thesis
                using "4.prems"(1) \<open>t = Raw c\<close> grp \<open>ts' = d # ts1\<close> True Cons by simp
            qed
          qed
        qed
      qed
    qed
  qed
next
  case (5 u neg rs st t ts')
  have side: "ts' = [] \<or> last ts' \<noteq> Raw 0x28"
    using "5.prems"(2) by (auto split: if_splits)
  show ?case
  proof (cases "t = Raw 0x5D")
    case True
    with "5.prems"(1) obtain r where r: "lex u Top ts' = Ok r" "ts = TSet neg (cls_close rs st) # r"
      by (auto simp: ok_cons_eq_Ok)
    from "5.IH"(1)[OF True r(1) side] show ?thesis
      using True r by simp
  next
    case False
    with "5.prems"(1) obtain x rs' st' where
      x: "class_atom_of t = Ok x" "cls_step u rs st x (t = Raw 0x2D) = Ok (rs', st')"
         "lex u (Cls neg rs' st') ts' = Ok ts"
      by (auto split: res.splits prod.splits)
    from "5.IH"(2)[OF False x(1) x(2) refl x(3) side] show ?thesis
      using False x by simp
  qed
next
  case (6 u acc t ts')
  have side: "ts' = [] \<or> last ts' \<noteq> Raw 0x28"
    using "6.prems"(2) by (auto split: if_splits)
  show ?case
  proof (cases t)
    case (Raw c)
    consider (fin) "c = 0x3E" | (nm) "c \<noteq> 0x3E" "is_name_char c" | (oth) "c \<noteq> 0x3E" "\<not> is_name_char c"
      by blast
    then show ?thesis
    proof cases
      case fin
      with "6.prems"(1) Raw obtain r where
        r: "acc \<noteq> [] \<and> \<not> is_digit (last acc)" "lex u Top ts' = Ok r" "ts = TOpenCap (Some (rev acc)) # r"
        by (auto simp: ok_cons_eq_Ok split: if_splits)
      from "6.IH"(1)[OF Raw fin r(1) r(2) side] show ?thesis
        using Raw fin r by simp
    next
      case nm
      with "6.prems"(1) Raw have r: "lex u (GName (c # acc)) ts' = Ok ts"
        by simp
      from "6.IH"(2)[OF Raw nm r side] show ?thesis
        using Raw nm by simp
    next
      case oth
      then show ?thesis using "6.prems"(1) Raw by simp
    qed
  next
    case (Esc e)
    then show ?thesis using "6.prems"(1) by simp
  next
    case (Code v)
    then show ?thesis using "6.prems"(1) by simp
  qed
qed

lemma piece_append: "piece u xs ts \<Longrightarrow> piece u ys ts' \<Longrightarrow> piece u (xs @ ys) (ts @ ts')"
proof -
  assume "piece u xs ts" "piece u ys ts'"
  then obtain ps qs where
    ps: "unescape u UNormal xs = Ok ps" "ps = [] \<or> (\<not> lead_code (last ps) \<and> last ps \<noteq> Raw 0x28)"
        "lex u Top ps = Ok ts" "list_all (\<lambda>c. c < 0xD800) xs" and
    qs: "unescape u UNormal ys = Ok qs" "qs = [] \<or> (\<not> lead_code (last qs) \<and> last qs \<noteq> Raw 0x28)"
        "lex u Top qs = Ok ts'" "list_all (\<lambda>c. c < 0xD800) ys"
    unfolding piece_def by blast
  have "unescape u UNormal (xs @ ys) = Ok (ps @ qs)"
    using unescape_append[of u UNormal xs ps ys] ps qs by auto
  moreover have "lex u Top (ps @ qs) = Ok (ts @ ts')"
    using lex_append[of u Top ps ts qs] ps qs by auto
  moreover have "ps @ qs = [] \<or> (\<not> lead_code (last (ps @ qs)) \<and> last (ps @ qs) \<noteq> Raw 0x28)"
    using ps(2) qs(2) by (cases "qs = []") auto
  ultimately show ?thesis
    unfolding piece_def using ps(4) qs(4) by auto
qed

lemma decode_small: "list_all (\<lambda>c. c < 0xD800) xs \<Longrightarrow> decode xs = xs"
  by (induction xs rule: decode.induct) auto

lemma piece_compile:
  "piece u xs ts \<Longrightarrow> compile u xs = parse_tokens ts"
  by (auto simp: piece_def compile_def tokens_def decode_small)

lemma RegExp_new_piece:
  assumes "piece (CHR ''u'' \<in> set fl) tx ts"
    and "is_ok (parse_tokens ts)"
    and "tx \<noteq> []" and "distinct fl" and "set fl \<subseteq> {CHR ''m'', CHR ''u''}"
    and "CHR ''u'' \<in> set fl \<longrightarrow> uflag"
  shows "RegExp_new uflag tx fl = Inr \<lparr>source = tx, flags = filter (\<lambda>c. c \<in> set fl) ''mu''\<rparr>"
  using assms piece_compile[OF assms(1)]
  by (auto simp: RegExp_new_def is_ok_def split: res.splits)

lemma js_eq_iff: "js a = js b \<longleftrightarrow> a = b"
  by (simp add: js_def inj_map_eq_map inj_on_def)

lemma js_Nil_iff: "js a = [] \<longleftrightarrow> a = []"
  by (simp add: js_def)

text \<open>
  \<^verbatim>\<open>reg\<close> and \<^verbatim>\<open>regg\<close> on arguments whose concatenation is a piece that parses: the
  result is the pattern with that text.
\<close>

lemma reg_value:
  assumes "piece uflag tx ts" and "is_ok (parse_tokens ts)" and "tx \<noteq> []"
    and "Str (js ''|'') \<notin> set args" and "concat (map part_text args) = tx"
  shows "reg uflag args = Inr \<lparr>source = tx, flags = (if uflag then ''mu'' else ''m'')\<rparr>"
proof -
  have "reg uflag args = RegExp_new uflag tx (if uflag then ''mu'' else ''m'')"
    using assms(4,5) by (simp add: reg_def reg_apply_def map_parts_reg UNICODE_SUPPORT_eq)
  also have "\<dots> = Inr \<lparr>source = tx, flags = (if uflag then ''mu'' else ''m'')\<rparr>"
    using RegExp_new_piece[of "if uflag then ''mu'' else ''m''" tx ts uflag] assms(1,2,3)
    by (cases uflag) auto
  finally show ?thesis .
qed

lemma regg_value:
  assumes "piece uflag tx ts" and "is_ok (parse_tokens ts)" and "args \<noteq> []"
    and "js ''(?:'' @ concat (map part_text args) @ js '')'' = tx"
  shows "regg uflag args = Inr \<lparr>source = tx, flags = (if uflag then ''mu'' else ''m'')\<rparr>"
proof -
  have ne: "tx \<noteq> []"
    using assms(4) by (auto simp: js_def)
  have "regg uflag args = RegExp_new uflag tx (if uflag then ''mu'' else ''m'')"
    using assms(3,4)
    by (simp add: regg_def reg_apply_def map_parts_regg UNICODE_SUPPORT_eq part_text_def)
  also have "\<dots> = Inr \<lparr>source = tx, flags = (if uflag then ''mu'' else ''m'')\<rparr>"
    using RegExp_new_piece[of "if uflag then ''mu'' else ''m''" tx ts uflag] assms(1,2) ne
    by (cases uflag) auto
  finally show ?thesis .
qed

subsection \<open>The texts of the name classes\<close>

text \<open>
  The module computes the texts written out above for its character classes, and the
  runtime reads the ranges written out above from them.
\<close>

lemmas module_defs = chars_def chars_without_def reg_def regg_def reg_apply_def regE_def reggE_def
  str_def strE_def pat_def bindE_def regexp_literal_def char_at_def slice_def lastIndexOf_def
  indexOf_def replace_def UNICODE_SUPPORT_eq

lemmas text_defs = NCNameStartChar_body_def astral_def NameChar_extra_def NameStartChar_text_def
  NCNameStartChar_text_def NameChar_text_def NCNameChar_text_def NCNameStartChar_ranges_def
  NameChar_extra_ranges_def

lemma NameStartChar_value:
  "NameStartChar u = Inr \<lparr>source = NameStartChar_text u, flags = (if u then ''mu'' else [])\<rparr>"
  by (cases u)
     (simp_all add: NameStartChar_def NameStartChar_literal_def text_defs module_defs engine_defs)

lemma NameChar_value:
  "NameChar u = Inr \<lparr>source = NameChar_text u, flags = (if u then ''mu'' else ''m'')\<rparr>"
  by (cases u)
     (simp_all add: NameChar_def NameStartChar_s_def NameStartChar_value text_defs module_defs
        engine_defs)

lemma NCNameStartChar_value:
  "NCNameStartChar u = Inr \<lparr>source = NCNameStartChar_text u, flags = (if u then ''u'' else [])\<rparr>"
  by (cases u)
     (simp_all add: NCNameStartChar_def NameStartChar_value text_defs module_defs engine_defs)

lemma NCNameChar_value:
  "NCNameChar u = Inr \<lparr>source = NCNameChar_text u, flags = (if u then ''u'' else [])\<rparr>"
  by (cases u)
     (simp_all add: NCNameChar_def NameChar_value text_defs module_defs engine_defs)

lemma NameStartChar_piece:
  "piece u (NameStartChar_text u) [TSet False ((0x3A, 0x3A) # NCNameStartChar_ranges u)]"
  by (cases u) (simp_all add: piece_def lead_code_def text_defs engine_defs)

lemma NCNameStartChar_piece:
  "piece u (NCNameStartChar_text u) [TSet False (NCNameStartChar_ranges u)]"
  by (cases u) (simp_all add: piece_def lead_code_def text_defs engine_defs)

lemma NameChar_piece:
  "piece u (NameChar_text u)
     [TSet False ((0x3A, 0x3A) # NCNameStartChar_ranges u @ NameChar_extra_ranges)]"
  by (cases u) (simp_all add: piece_def lead_code_def text_defs engine_defs)

lemma NCNameChar_piece:
  "piece u (NCNameChar_text u) [TSet False (NCNameStartChar_ranges u @ NameChar_extra_ranges)]"
  by (cases u) (simp_all add: piece_def lead_code_def text_defs engine_defs)

subsection \<open>The name productions\<close>

lemmas parse_defs = is_ok_def parse_tokens_def close_frame_def

lemma literal_pieces:
  "piece u (js ''*'') [TStar]"
  "piece u (js ''?'') [TQuest]"
  "piece u (js ''^'') [TCaret]"
  "piece u (js ''$'') [TDollar]"
  "piece u (js ''(?:'') [TOpenNon]"
  "piece u (js '')'') [TClose]"
  "piece u (js '':'') [TLit 0x3A]"
  "piece u (js ''+'') [TPlus]"
  "piece u (js ''|'') [TBar]"
  by (simp_all add: piece_def lead_code_def engine_defs)

lemma Name_piece:
  "piece u (Name_text u)
     [TSet False ((0x3A, 0x3A) # NCNameStartChar_ranges u),
      TSet False ((0x3A, 0x3A) # NCNameChar_ranges u), TStar]"
  using piece_append[OF NameStartChar_piece piece_append[OF NameChar_piece literal_pieces(1)]]
  by (simp add: Name_text_def NCNameChar_ranges_def)

lemma Name_value:
  "Name u = Inr \<lparr>source = Name_text u, flags = (if u then ''mu'' else ''m'')\<rparr>"
  unfolding Name_def regE_def
  by (simp add: pat_def str_def NameStartChar_value NameChar_value split del: if_split)
     (rule reg_value[OF Name_piece];
      simp add: Name_text_def parse_defs part_text_def js_eq_iff js_Nil_iff)

lemma Name_compiled: "compile u (Name_text u) = Ok (Name_ast u, [])"
  by (simp add: piece_compile[OF Name_piece] Name_ast_def parse_defs)

lemma NCName_piece: "piece u (NCName_text u) (NCName_tokens u)"
  using piece_append[OF NCNameStartChar_piece piece_append[OF NCNameChar_piece literal_pieces(1)]]
  by (simp add: NCName_text_def NCName_tokens_def NCNameChar_ranges_def)

lemma NCName_value:
  "NCName u = Inr \<lparr>source = NCName_text u, flags = (if u then ''mu'' else ''m'')\<rparr>"
  unfolding NCName_def regE_def
  by (simp add: pat_def str_def NCNameStartChar_value NCNameChar_value split del: if_split)
     (rule reg_value[OF NCName_piece];
      simp add: NCName_tokens_def NCName_text_def parse_defs part_text_def js_eq_iff js_Nil_iff)

lemma NCName_compiled: "compile u (NCName_text u) = Ok (NCName_ast u, [])"
  by (simp add: piece_compile[OF NCName_piece] NCName_tokens_def NCName_ast_def parse_defs)

lemma QName_group_piece:
  "piece u (QName_group_text u) ([TOpenNon, TLit 0x3A] @ NCName_tokens u @ [TClose])"
  using piece_append[OF literal_pieces(5) piece_append[OF literal_pieces(7)
          piece_append[OF NCName_piece literal_pieces(6)]]]
  by (simp add: QName_group_text_def)

lemma QName_group_value:
  "reggE u [str (js '':''), pat (NCName u)] =
     Inr \<lparr>source = QName_group_text u, flags = (if u then ''mu'' else ''m'')\<rparr>"
  unfolding reggE_def
  by (simp add: pat_def str_def NCName_value split del: if_split)
     (rule regg_value[OF QName_group_piece];
      simp add: NCName_tokens_def QName_group_text_def parse_defs part_text_def)

lemma QName_piece:
  "piece u (QName_text u)
     (NCName_tokens u @ [TOpenNon, TLit 0x3A] @ NCName_tokens u @ [TClose, TQuest])"
  using piece_append[OF NCName_piece piece_append[OF QName_group_piece literal_pieces(2)]]
  by (simp add: QName_text_def)

lemma QName_value:
  "QName u = Inr \<lparr>source = QName_text u, flags = (if u then ''mu'' else ''m'')\<rparr>"
  unfolding QName_def regE_def QName_group_value
  by (simp add: pat_def str_def NCName_value split del: if_split)
     (rule reg_value[OF QName_piece];
      simp add: NCName_tokens_def QName_text_def NCName_text_def parse_defs part_text_def
        js_eq_iff js_Nil_iff)

lemma QName_exact_piece:
  "piece u (QName_exact_text u)
     (TCaret # NCName_tokens u @ [TOpenNon, TLit 0x3A] @ NCName_tokens u @ [TClose, TQuest, TDollar])"
  using piece_append[OF literal_pieces(3) piece_append[OF QName_piece literal_pieces(4)]]
  by (simp add: QName_exact_text_def)

lemma QName_exact_value:
  "QName_exact u = Inr \<lparr>source = QName_exact_text u, flags = (if u then ''mu'' else ''m'')\<rparr>"
  unfolding QName_exact_def regE_def
  by (simp add: pat_def str_def QName_value split del: if_split)
     (rule reg_value[OF QName_exact_piece];
      simp add: NCName_tokens_def QName_exact_text_def parse_defs part_text_def
        js_eq_iff js_Nil_iff)

lemma QName_exact_compiled: "compile u (QName_exact_text u) = Ok (QName_exact_ast u, [])"
  by (simp add: piece_compile[OF QName_exact_piece] NCName_tokens_def QName_exact_ast_def
        NCName_ast_def parse_defs)

subsection \<open>\<^verbatim>\<open>QName_exact\<close>\<close>

lemmas match_defs = regexp_test_def regexp_exec_def to_string_def is_line_terminator_def js_def

text \<open>
  Claim C7. The anchored whole-string variant \<^verbatim>\<open>QName_exact\<close> matches the strings
  \<^verbatim>\<open>ns:local\<close> and \<^verbatim>\<open>local\<close>, and rejects \<^verbatim>\<open>a:b:c\<close>, which has more than one separator,
  and \<^verbatim>\<open>1abc\<close>, which starts with a digit. This holds whether or not the runtime supports
  the unicode flag.
\<close>

theorem QName_exact_examples:
  "test_production (QName_exact u) (js ''ns:local'') = Inr True
   \<and> test_production (QName_exact u) (js ''local'') = Inr True
   \<and> test_production (QName_exact u) (js ''a:b:c'') = Inr False
   \<and> test_production (QName_exact u) (js ''1abc'') = Inr False"
  by (cases u)
     (simp_all add: test_production_def bindE_def QName_exact_value QName_exact_compiled
        QName_exact_ast_def NCName_ast_def NCNameChar_ranges_def NCNameStartChar_ranges_def
        NameChar_extra_ranges_def match_defs)

theorem QName_exact_examples_witness:
  "test_production (QName_exact True) (js ''ns:local'') = Inr True
   \<and> test_production (QName_exact False) (js ''a:b:c'') = Inr False"
  using QName_exact_examples[of True] QName_exact_examples[of False] by blast

subsection \<open>\<^verbatim>\<open>ExternalID_match\<close>: the pattern\<close>

lemmas externalid_text_defs = SChar_text_def S_text_def SystemLiteral_text_def PubidChar_text_def
  PubidChar_noquote_text_def SYSTEM_def PUBLIC_def

lemmas externalid_token_defs = SChar_ranges_def S_tokens_def SystemLiteral_tokens_def
  PubidChar_ranges_def PubidChar_noquote_ranges_def

lemma externalid_pieces:
  "piece u SYSTEM (map TLit SYSTEM)"
  "piece u PUBLIC (map TLit PUBLIC)"
  "piece u (js ''(?<SystemLiteralOnly>'') [TOpenCap (Some (js ''SystemLiteralOnly''))]"
  "piece u (js ''(?<PubidLiteral>'') [TOpenCap (Some (js ''PubidLiteral''))]"
  "piece u (js ''(?<SystemLiteral>'') [TOpenCap (Some (js ''SystemLiteral''))]"
  "piece u [0x22] [TLit 0x22]"
  "piece u [0x27] [TLit 0x27]"
  by (simp_all add: piece_def lead_code_def SYSTEM_def PUBLIC_def engine_defs)

lemma S_piece: "piece u S_text S_tokens"
  by (cases u)
     (simp_all add: piece_def lead_code_def externalid_text_defs externalid_token_defs engine_defs)

lemma S_value: "S u = Inr \<lparr>source = S_text, flags = (if u then ''mu'' else ''m'')\<rparr>"
  unfolding S_def regE_def
  by (simp add: pat_def str_def SChar_def regexp_literal_def split del: if_split)
     (rule reg_value[OF S_piece];
      simp add: S_tokens_def S_text_def SChar_text_def parse_defs part_text_def js_eq_iff js_Nil_iff)

lemma SystemLiteral_piece: "piece u SystemLiteral_text SystemLiteral_tokens"
  by (cases u)
     (simp_all add: piece_def lead_code_def externalid_text_defs externalid_token_defs engine_defs)

lemma SystemLiteral_value:
  "SystemLiteral u = Inr \<lparr>source = SystemLiteral_text, flags = (if u then ''mu'' else ''m'')\<rparr>"
  unfolding SystemLiteral_def reggE_def
  by (simp add: pat_def regexp_literal_def split del: if_split)
     (rule regg_value[OF SystemLiteral_piece];
      simp add: SystemLiteral_tokens_def SystemLiteral_text_def parse_defs part_text_def)

lemma PubidChar_piece: "piece u PubidChar_text [TSet False PubidChar_ranges]"
  by (cases u)
     (simp_all add: piece_def lead_code_def externalid_text_defs externalid_token_defs engine_defs)

lemma PubidChar_noquote_piece: "piece u PubidChar_noquote_text [TSet False PubidChar_noquote_ranges]"
  by (cases u)
     (simp_all add: piece_def lead_code_def externalid_text_defs externalid_token_defs engine_defs)

lemma PubidChar_noquote_value:
  "chars_without u PubidChar (JString [0x27]) =
     Inr \<lparr>source = PubidChar_noquote_text, flags = (if u then ''u'' else [])\<rparr>"
  by (cases u)
     (simp_all add: PubidChar_def PubidChar_noquote_text_def module_defs engine_defs)

lemma PubidLiteral_piece: "piece u PubidLiteral_text PubidLiteral_tokens"
  using piece_append[OF literal_pieces(5) piece_append[OF externalid_pieces(6)
          piece_append[OF PubidChar_piece piece_append[OF literal_pieces(1)
          piece_append[OF externalid_pieces(6) piece_append[OF literal_pieces(9)
          piece_append[OF externalid_pieces(7) piece_append[OF PubidChar_noquote_piece
          piece_append[OF literal_pieces(1) piece_append[OF externalid_pieces(7)
          literal_pieces(6)]]]]]]]]]]
  by (simp add: PubidLiteral_text_def PubidLiteral_tokens_def)

lemma PubidLiteral_value:
  "PubidLiteral u = Inr \<lparr>source = PubidLiteral_text, flags = (if u then ''mu'' else ''m'')\<rparr>"
  unfolding PubidLiteral_def reggE_def PubidChar_noquote_value
  by (simp add: pat_def str_def PubidChar_def regexp_literal_def split del: if_split)
     (rule regg_value[OF PubidLiteral_piece];
      simp add: PubidLiteral_tokens_def PubidLiteral_text_def PubidChar_text_def parse_defs
        part_text_def)

lemma ExternalID_system_piece: "piece u ExternalID_system_text ExternalID_system_tokens"
  using piece_append[OF literal_pieces(5) piece_append[OF externalid_pieces(1)
          piece_append[OF S_piece piece_append[OF externalid_pieces(3)
          piece_append[OF SystemLiteral_piece piece_append[OF literal_pieces(6)
          literal_pieces(6)]]]]]]
  by (simp add: ExternalID_system_text_def ExternalID_system_tokens_def)

lemma ExternalID_system_value:
  "reggE u [str SYSTEM, pat (S u), str (js ''(?<SystemLiteralOnly>''), pat (SystemLiteral u),
            str (js '')'')] =
     Inr \<lparr>source = ExternalID_system_text, flags = (if u then ''mu'' else ''m'')\<rparr>"
  unfolding reggE_def S_value SystemLiteral_value
  by (simp add: pat_def str_def split del: if_split)
     (rule regg_value[OF ExternalID_system_piece];
      simp add: ExternalID_system_tokens_def ExternalID_system_text_def SYSTEM_def js_def
        externalid_token_defs parse_defs part_text_def)

lemma ExternalID_public_piece: "piece u ExternalID_public_text ExternalID_public_tokens"
  using piece_append[OF literal_pieces(5) piece_append[OF externalid_pieces(2)
          piece_append[OF S_piece piece_append[OF externalid_pieces(4)
          piece_append[OF PubidLiteral_piece piece_append[OF literal_pieces(6)
          piece_append[OF S_piece piece_append[OF externalid_pieces(5)
          piece_append[OF SystemLiteral_piece piece_append[OF literal_pieces(6)
          literal_pieces(6)]]]]]]]]]]
  by (simp add: ExternalID_public_text_def ExternalID_public_tokens_def)

lemma ExternalID_public_value:
  "reggE u [str PUBLIC, pat (S u), str (js ''(?<PubidLiteral>''), pat (PubidLiteral u),
            str (js '')''), pat (S u), str (js ''(?<SystemLiteral>''), pat (SystemLiteral u),
            str (js '')'')] =
     Inr \<lparr>source = ExternalID_public_text, flags = (if u then ''mu'' else ''m'')\<rparr>"
  unfolding reggE_def S_value SystemLiteral_value PubidLiteral_value
  by (simp add: pat_def str_def split del: if_split)
     (rule regg_value[OF ExternalID_public_piece];
      simp add: ExternalID_public_tokens_def ExternalID_public_text_def PUBLIC_def js_def
        PubidLiteral_tokens_def externalid_token_defs parse_defs part_text_def)

lemma ExternalID_alt_piece: "piece u ExternalID_alt_text ExternalID_alt_tokens"
  using piece_append[OF literal_pieces(5) piece_append[OF ExternalID_system_piece
          piece_append[OF literal_pieces(9) piece_append[OF ExternalID_public_piece
          literal_pieces(6)]]]]
  by (simp add: ExternalID_alt_text_def ExternalID_alt_tokens_def)

lemma ExternalID_match_piece: "piece u ExternalID_match_text (TCaret # ExternalID_alt_tokens)"
  using piece_append[OF literal_pieces(3) ExternalID_alt_piece]
  by (simp add: ExternalID_match_text_def)

lemmas externalid_all_tokens = ExternalID_alt_tokens_def ExternalID_system_tokens_def
  ExternalID_public_tokens_def PubidLiteral_tokens_def S_tokens_def SystemLiteral_tokens_def
  SYSTEM_def PUBLIC_def js_def

lemmas externalid_asts = ExternalID_match_ast_def ExternalID_system_ast_def
  ExternalID_public_ast_def PubidLiteral_ast_def SystemLiteral_ast_def S_ast_def quoted_def
  lits_def ExternalID_match_names_def

lemma ExternalID_match_parsed:
  "parse_tokens (TCaret # ExternalID_alt_tokens) = Ok (ExternalID_match_ast, ExternalID_match_names)"
  by (simp add: externalid_all_tokens externalid_asts parse_defs)

lemma ExternalID_alt_value:
  "reggE u [pat (Inr \<lparr>source = ExternalID_system_text, flags = (if u then ''mu'' else ''m'')\<rparr>),
            str (js ''|''),
            pat (Inr \<lparr>source = ExternalID_public_text, flags = (if u then ''mu'' else ''m'')\<rparr>)] =
     Inr \<lparr>source = ExternalID_alt_text, flags = (if u then ''mu'' else ''m'')\<rparr>"
  unfolding reggE_def
  by (simp add: pat_def str_def split del: if_split)
     (rule regg_value[OF ExternalID_alt_piece];
      simp add: externalid_all_tokens ExternalID_alt_text_def parse_defs part_text_def)

lemma ExternalID_match_value:
  "ExternalID_match u =
     Inr \<lparr>source = ExternalID_match_text, flags = (if u then ''mu'' else ''m'')\<rparr>"
  unfolding ExternalID_match_def regE_def ExternalID_system_value ExternalID_public_value
    ExternalID_alt_value
  by (simp add: pat_def str_def split del: if_split)
     (rule reg_value[OF ExternalID_match_piece];
      simp add: ExternalID_match_parsed ExternalID_match_text_def ExternalID_alt_text_def
        is_ok_def part_text_def js_eq_iff js_Nil_iff)

lemma ExternalID_match_compiled:
  "compile u ExternalID_match_text = Ok (ExternalID_match_ast, ExternalID_match_names)"
  by (simp add: piece_compile[OF ExternalID_match_piece] ExternalID_match_parsed)


subsection \<open>\<^verbatim>\<open>ExternalID_match\<close>: the examples\<close>

lemmas exec_defs = exec_production_def bindE_def match_defs externalid_asts
  externalid_token_defs SYSTEM_def PUBLIC_def dq_def

text \<open>
  Claim C8. \<^verbatim>\<open>ExternalID_match\<close> applied to \<^verbatim>\<open>SYSTEM "http://example.org/x.dtd"\<close> matches, the
  named group \<^verbatim>\<open>SystemLiteralOnly\<close> is \<^verbatim>\<open>"http://example.org/x.dtd"\<close> with its quotes, and the
  groups \<^verbatim>\<open>PubidLiteral\<close> and \<^verbatim>\<open>SystemLiteral\<close> are undefined. Applied to
  \<^verbatim>\<open>PUBLIC "-//X//Y" "http://example.org/x.dtd"\<close> it matches with \<^verbatim>\<open>PubidLiteral\<close> equal to
  \<^verbatim>\<open>"-//X//Y"\<close> and \<^verbatim>\<open>SystemLiteral\<close> equal to \<^verbatim>\<open>"http://example.org/x.dtd"\<close>, quotes
  included, and \<^verbatim>\<open>SystemLiteralOnly\<close> undefined. In both cases the match is the whole input.
\<close>

theorem ExternalID_match_examples:
  "\<exists>m1 m2.
     exec_production (ExternalID_match u) (js ''SYSTEM '' @ dq ''http://example.org/x.dtd'')
       = Inr (Some m1)
     \<and> index m1 = 0
     \<and> matched m1 = js ''SYSTEM '' @ dq ''http://example.org/x.dtd''
     \<and> groups m1 (js ''SystemLiteralOnly'') = Some (dq ''http://example.org/x.dtd'')
     \<and> groups m1 (js ''PubidLiteral'') = None
     \<and> groups m1 (js ''SystemLiteral'') = None
     \<and> exec_production (ExternalID_match u)
         (js ''PUBLIC '' @ dq ''-//X//Y'' @ js '' '' @ dq ''http://example.org/x.dtd'')
       = Inr (Some m2)
     \<and> index m2 = 0
     \<and> matched m2 = js ''PUBLIC '' @ dq ''-//X//Y'' @ js '' '' @ dq ''http://example.org/x.dtd''
     \<and> groups m2 (js ''SystemLiteralOnly'') = None
     \<and> groups m2 (js ''PubidLiteral'') = Some (dq ''-//X//Y'')
     \<and> groups m2 (js ''SystemLiteral'') = Some (dq ''http://example.org/x.dtd'')"
  by (cases u)
     (simp_all add: ExternalID_match_value ExternalID_match_compiled exec_defs)

theorem ExternalID_match_examples_witness:
  "\<exists>m. exec_production (ExternalID_match True) (js ''SYSTEM '' @ dq ''http://example.org/x.dtd'')
         = Inr (Some m)
       \<and> groups m (js ''SystemLiteralOnly'') = Some (dq ''http://example.org/x.dtd'')
       \<and> groups m (js ''PubidLiteral'') = None"
  using ExternalID_match_examples[of True] by blast

subsection \<open>\<^verbatim>\<open>NCName\<close> and the namespace separator\<close>

lemma consumed_refl: "consumed c x x"
  by (simp add: consumed_def)

lemma consumed_trans: "consumed c x y \<Longrightarrow> consumed c y z \<Longrightarrow> consumed c x z"
  unfolding consumed_def
proof (elim exE conjE)
  fix w v
  assume "before y = rev w @ before x" "after x = w @ after y" "c \<notin> set w"
    "before z = rev v @ before y" "after y = v @ after z" "c \<notin> set v"
  then have "before z = rev (w @ v) @ before x \<and> after x = (w @ v) @ after z \<and> c \<notin> set (w @ v)"
    by simp
  then show "\<exists>w. before z = rev w @ before x \<and> after x = w @ after z \<and> c \<notin> set w"
    by blast
qed

lemma consumed_clear_caps: "consumed c (clear_caps gs x) y = consumed c x y"
  by (cases x) (simp add: consumed_def)

lemma consumed_set_cap: "consumed c x (set_cap i x' y) = consumed c x y"
  by (cases x'; cases y) (simp add: consumed_def)

lemma consumed_step: "d \<noteq> c \<Longrightarrow> after x = d # a \<Longrightarrow> consumed c x (MState (d # before x) a k)"
  unfolding consumed_def by (rule exI[of _ "[d]"]) simp

lemma ms_avoids: "avoids c r \<Longrightarrow> y \<in> set (ms m r x) \<Longrightarrow> consumed c x y"
proof (induction m r x arbitrary: y rule: ms.induct)
  case (1 m x)
  then show ?case by (simp add: consumed_refl)
next
  case (2 m d x)
  then show ?case by (auto simp: consumed_step split: list.splits if_splits)
next
  case (3 m neg rs x)
  from "3.prems" obtain d a where
    d: "after x = d # a" "in_ranges rs d" "y = MState (d # before x) a (caps x)"
    by (cases "after x") (auto split: if_splits)
  from "3.prems"(1) d(2) have "d \<noteq> c"
    by auto
  then show ?case
    using d(1,3) by (simp add: consumed_step)
next
  case (4 m x)
  then show ?case by (auto simp: consumed_refl split: list.splits if_splits)
next
  case (5 m x)
  then show ?case by (auto simp: consumed_refl split: list.splits if_splits)
next
  case (6 m r1 r2 x)
  from "6.prems" obtain z where z: "z \<in> set (ms m r1 x)" "y \<in> set (ms m r2 z)"
    by auto
  from "6.prems"(1) have a: "avoids c r1" "avoids c r2"
    by simp_all
  show ?case
    using consumed_trans[OF "6.IH"(1)[OF a(1) z(1)] "6.IH"(2)[OF z(1) a(2) z(2)]] .
next
  case (7 m r1 r2 x)
  then show ?case by auto
next
  case (8 m i r x)
  then show ?case by (auto simp: consumed_set_cap)
next
  case (9 m r mn mx g x)
  note ms.simps [simp del]
  from "9.prems"(1) have a: "avoids c r" "\<And>mn' mx'. avoids c (Repeat r mn' mx' g)"
    by simp_all
  let ?first = "ms m r (clear_caps (groups_in r) x)"
  let ?mx = "map_option (\<lambda>n. n - 1) mx"
  show ?case
  proof (cases "mx = Some 0")
    case True
    then show ?thesis
      using "9.prems"(2) by (subst (asm) ms.simps(9)) (simp add: consumed_refl)
  next
    case nz: False
    show ?thesis
    proof (cases "mn = 0")
      case False
      from "9.prems"(2) have "y \<in> set (concat (map (ms m (Repeat r (mn - 1) ?mx g)) ?first))"
        by (subst (asm) ms.simps(9)) (simp add: nz False)
      then obtain z where
        z: "z \<in> set ?first" "y \<in> set (ms m (Repeat r (mn - 1) ?mx g) z)"
        by auto
      have "consumed c x z"
        using "9.IH"(1)[OF nz False a(1) z(1)] by (simp add: consumed_clear_caps)
      moreover have "consumed c z y"
        using "9.IH"(2)[OF nz False z(1) a(2) z(2)] .
      ultimately show ?thesis by (rule consumed_trans)
    next
      case True
      let ?rounds = "concat (map (\<lambda>y. if length (after y) < length (after x)
                        then ms m (Repeat r 0 ?mx g) y else []) ?first)"
      from "9.prems"(2) have "y \<in> set (if g then ?rounds @ [x] else x # ?rounds)"
        by (subst (asm) ms.simps(9)) (simp add: nz True)
      then have "y = x \<or> y \<in> set ?rounds"
        by (cases g) auto
      then show ?thesis
      proof
        assume "y = x"
        then show ?thesis by (simp add: consumed_refl)
      next
        assume "y \<in> set ?rounds"
        then obtain z where
          z: "z \<in> set ?first" "length (after z) < length (after x)"
             "y \<in> set (ms m (Repeat r 0 ?mx g) z)"
          by (auto split: if_splits)
        show ?thesis
        proof (cases g)
          case g: True
          have "consumed c x z"
            using "9.IH"(3)[OF nz _ g a(1) z(1)] True by (simp add: consumed_clear_caps)
          moreover have "consumed c z y"
            using "9.IH"(4)[OF nz _ g z(1) z(2) a(2) z(3)] True by simp
          ultimately show ?thesis by (rule consumed_trans)
        next
          case g: False
          have "consumed c x z"
            using "9.IH"(5)[OF nz _ g a(1) z(1)] True by (simp add: consumed_clear_caps)
          moreover have "consumed c z y"
            using "9.IH"(6)[OF nz _ g z(1) z(2) a(2) z(3)] True by simp
          ultimately show ?thesis by (rule consumed_trans)
        qed
      qed
    qed
  qed
qed

lemma find_match_Some:
  "find_match m r b a = Some (b', y) \<Longrightarrow> \<exists>a'. y \<in> set (ms m r (MState b' a' (\<lambda>i. None)))"
proof (induction m r b a rule: find_match.induct)
  case (1 m r b a)
  show ?case
  proof (cases "ms m r (MState b a (\<lambda>i. None))")
    case Nil
    with "1.prems" obtain d a' where "a = d # a'" "find_match m r (d # b) a' = Some (b', y)"
      by (subst (asm) find_match.simps) (auto split: list.splits)
    then show ?thesis
      using "1.IH"[OF Nil] by blast
  next
    case (Cons z zs)
    with "1.prems" have "b' = b \<and> y = z"
      by (subst (asm) find_match.simps) simp
    with Cons show ?thesis
      by (metis list.set_intros(1))
  qed
qed

lemma encode_mem: "c < 0xD800 \<Longrightarrow> c \<in> set (encode w) \<longleftrightarrow> c \<in> set w"
  by (induction w) auto

lemma decode_mem: "c < 0xD800 \<Longrightarrow> c \<in> set (decode s) \<longleftrightarrow> c \<in> set s"
  by (induction s rule: decode.induct) auto

lemma consumed_matched:
  assumes "consumed c (MState b a k) y"
  shows "c \<notin> set (rev (take (length (before y) - length b) (before y)))"
proof -
  from assms obtain w where "before y = rev w @ b" "c \<notin> set w"
    by (auto simp: consumed_def)
  then show ?thesis by simp
qed

lemma regexp_exec_avoids:
  assumes "compile (CHR ''u'' \<in> set (flags r)) (source r) = Ok (ast, names)"
    and "avoids c ast" and "c < 0xD800" and "regexp_exec r s = Inr (Some mt)"
  shows "c \<notin> set (matched mt)"
proof -
  let ?u = "CHR ''u'' \<in> set (flags r)"
  from assms(1,4) obtain b y where
    f: "find_match (CHR ''m'' \<in> set (flags r)) ast [] (if ?u then decode s else s) = Some (b, y)"
    and m: "matched mt = to_string ?u (rev (take (length (before y) - length b) (before y)))"
    by (auto simp: regexp_exec_def split: option.splits)
  from find_match_Some[OF f] obtain a' where
    "y \<in> set (ms (CHR ''m'' \<in> set (flags r)) ast (MState b a' (\<lambda>i. None)))"
    by blast
  then have "c \<notin> set (rev (take (length (before y) - length b) (before y)))"
    using ms_avoids[OF assms(2)] consumed_matched by blast
  then show ?thesis
    using assms(3) by (simp add: m to_string_def encode_mem del: set_rev)
qed

lemma matches_whole_avoids:
  assumes "compile (CHR ''u'' \<in> set (flags r)) (source r) = Ok (ast, names)"
    and "avoids c ast" and "c < 0xD800" and "matches_whole r s"
  shows "c \<notin> set s"
proof -
  let ?s = "if CHR ''u'' \<in> set (flags r) then decode s else s"
  from assms(1,4) obtain y where
    y: "y \<in> set (ms (CHR ''m'' \<in> set (flags r)) ast (MState [] ?s (\<lambda>i. None)))" "after y = []"
    by (auto simp: matches_whole_def list_ex_iff)
  from ms_avoids[OF assms(2) y(1)] y(2) have "c \<notin> set ?s"
    by (auto simp: consumed_def)
  then show ?thesis
    using assms(3) by (simp add: decode_mem split: if_splits)
qed

lemma NCName_avoids: "avoids 0x3A (NCName_ast u)"
  by (simp add: NCName_ast_def NCNameChar_ranges_def NCNameStartChar_ranges_def
        NameChar_extra_ranges_def)

text \<open>
  Claim C6. \<^verbatim>\<open>NCName\<close> never matches the namespace separator: whatever the input, the text
  that \<^verbatim>\<open>NCName\<close> matches in it (\<^verbatim>\<open>match[0]\<close>) has no \<^verbatim>\<open>:\<close>, and a string that \<^verbatim>\<open>NCName\<close> matches
  in full has no \<^verbatim>\<open>:\<close>. \<^verbatim>\<open>Name\<close>, built from the same start and continue classes with the
  separator left in, matches \<^verbatim>\<open>a:b\<close> in full.
\<close>

theorem NCName_excludes_separator:
  "(\<forall>mt. exec_production (NCName u) s = Inr (Some mt) \<longrightarrow> 0x3A \<notin> set (matched mt))
   \<and> (whole_production (NCName u) s \<longrightarrow> 0x3A \<notin> set s)
   \<and> whole_production (Name u) (js ''a:b'')"
proof (intro conjI allI impI)
  let ?r = "\<lparr>source = NCName_text u, flags = (if u then ''mu'' else ''m'')\<rparr>"
  have c: "compile (CHR ''u'' \<in> set (flags ?r)) (source ?r) = Ok (NCName_ast u, [])"
    by (cases u) (simp_all add: NCName_compiled)
  {
    fix mt
    assume "exec_production (NCName u) s = Inr (Some mt)"
    then have "regexp_exec ?r s = Inr (Some mt)"
      by (simp add: exec_production_def bindE_def NCName_value)
    then show "0x3A \<notin> set (matched mt)"
      using regexp_exec_avoids[OF c NCName_avoids] by simp
  }
  {
    assume "whole_production (NCName u) s"
    then have "matches_whole ?r s"
      by (simp add: whole_production_def NCName_value)
    then show "0x3A \<notin> set s"
      using matches_whole_avoids[OF c NCName_avoids] by simp
  }
  show "whole_production (Name u) (js ''a:b'')"
    by (cases u)
       (simp_all add: whole_production_def matches_whole_def Name_value Name_compiled Name_ast_def
          NCNameChar_ranges_def NCNameStartChar_ranges_def NameChar_extra_ranges_def js_def)
qed

theorem NCName_excludes_separator_witness:
  "whole_production (NCName True) (js ''local'') \<and> 0x3A \<notin> set (js ''local'')
   \<and> (\<exists>mt. exec_production (NCName True) (js ''a:b'') = Inr (Some mt) \<and> matched mt = js ''a''
         \<and> 0x3A \<notin> set (matched mt))
   \<and> whole_production (Name True) (js ''a:b'')"
  using NCName_excludes_separator[of True "js ''local''"] NCName_excludes_separator[of True "js ''a:b''"]
  by (simp add: whole_production_def matches_whole_def NCName_value NCName_compiled NCName_ast_def
        NCNameChar_ranges_def NCNameStartChar_ranges_def NameChar_extra_ranges_def
        exec_production_def bindE_def match_defs)

text \<open>
  The pattern is not anchored: in \<^verbatim>\<open>a:b\<close>, a string that contains the separator, \<^verbatim>\<open>NCName\<close>
  finds the match \<^verbatim>\<open>a\<close>, so \<^verbatim>\<open>NCName.test\<close> is true there.
\<close>

theorem NCName_finds_prefix_counterexample:
  "test_production (NCName True) (js ''a:b'') = Inr True \<and> 0x3A \<in> set (js ''a:b'')"
  by (simp add: test_production_def bindE_def NCName_value NCName_compiled NCName_ast_def
        NCNameChar_ranges_def NCNameStartChar_ranges_def NameChar_extra_ranges_def match_defs)


subsection \<open>\<^verbatim>\<open>ExternalID\<close>: the pattern\<close>

lemma ExternalID_sys_piece: "piece u ExternalID_sys_text ExternalID_sys_tokens"
  using piece_append[OF literal_pieces(5) piece_append[OF externalid_pieces(1)
          piece_append[OF S_piece piece_append[OF SystemLiteral_piece literal_pieces(6)]]]]
  by (simp add: ExternalID_sys_text_def ExternalID_sys_tokens_def)

lemma ExternalID_sys_value:
  "reggE u [str SYSTEM, pat (S u), pat (SystemLiteral u)] =
     Inr \<lparr>source = ExternalID_sys_text, flags = (if u then ''mu'' else ''m'')\<rparr>"
  unfolding reggE_def S_value SystemLiteral_value
  by (simp add: pat_def str_def split del: if_split)
     (rule regg_value[OF ExternalID_sys_piece];
      simp add: ExternalID_sys_tokens_def ExternalID_sys_text_def SYSTEM_def js_def
        externalid_token_defs parse_defs part_text_def)

lemma ExternalID_pub_piece: "piece u ExternalID_pub_text ExternalID_pub_tokens"
  using piece_append[OF literal_pieces(5) piece_append[OF externalid_pieces(2)
          piece_append[OF S_piece piece_append[OF PubidLiteral_piece
          piece_append[OF S_piece piece_append[OF SystemLiteral_piece literal_pieces(6)]]]]]]
  by (simp add: ExternalID_pub_text_def ExternalID_pub_tokens_def)

lemma ExternalID_pub_value:
  "reggE u [str PUBLIC, pat (S u), pat (PubidLiteral u), pat (S u), pat (SystemLiteral u)] =
     Inr \<lparr>source = ExternalID_pub_text, flags = (if u then ''mu'' else ''m'')\<rparr>"
  unfolding reggE_def S_value SystemLiteral_value PubidLiteral_value
  by (simp add: pat_def str_def split del: if_split)
     (rule regg_value[OF ExternalID_pub_piece];
      simp add: ExternalID_pub_tokens_def ExternalID_pub_text_def PUBLIC_def js_def
        PubidLiteral_tokens_def externalid_token_defs parse_defs part_text_def)

lemma ExternalID_piece: "piece u ExternalID_text ExternalID_tokens"
  using piece_append[OF literal_pieces(5) piece_append[OF ExternalID_sys_piece
          piece_append[OF literal_pieces(9) piece_append[OF ExternalID_pub_piece
          literal_pieces(6)]]]]
  by (simp add: ExternalID_text_def ExternalID_tokens_def)

lemma ExternalID_parsed: "parse_tokens ExternalID_tokens = Ok (ExternalID_ast, [])"
  by (simp add: ExternalID_tokens_def ExternalID_sys_tokens_def ExternalID_pub_tokens_def
        PubidLiteral_tokens_def S_tokens_def SystemLiteral_tokens_def SYSTEM_def PUBLIC_def js_def
        ExternalID_ast_def PubidLiteral_ast_def SystemLiteral_ast_def S_ast_def quoted_def
        lits_def parse_defs)

lemma ExternalID_value:
  "ExternalID u = Inr \<lparr>source = ExternalID_text, flags = (if u then ''mu'' else ''m'')\<rparr>"
  unfolding ExternalID_def reggE_def[of u "[pat _, str _, pat _]"] ExternalID_sys_value
    ExternalID_pub_value
  by (simp add: pat_def str_def split del: if_split)
     (rule regg_value[OF ExternalID_piece];
      simp add: ExternalID_parsed ExternalID_text_def is_ok_def part_text_def)

lemma ExternalID_compiled: "compile u ExternalID_text = Ok (ExternalID_ast, [])"
  by (simp add: piece_compile[OF ExternalID_piece] ExternalID_parsed)


subsection \<open>Matching with trailing text\<close>

lemma ms_star_step:
  "ms m (Repeat (CharSet neg rs) 0 None True) (MState b a k) =
     (case a of
        [] \<Rightarrow> [MState b a k]
      | d # a' \<Rightarrow>
          if in_ranges rs d \<noteq> neg
          then ms m (Repeat (CharSet neg rs) 0 None True) (MState (d # b) a' k) @ [MState b a k]
          else [MState b a k])"
  by (subst ms.simps(9)) (simp split: list.splits)

lemma ms_plus_step:
  "ms m (Repeat (CharSet neg rs) 1 None True) (MState b a k) =
     (case a of
        [] \<Rightarrow> []
      | d # a' \<Rightarrow>
          if in_ranges rs d \<noteq> neg
          then ms m (Repeat (CharSet neg rs) 0 None True) (MState (d # b) a' k)
          else [])"
  by (subst ms.simps(9)) (simp split: list.splits)

lemma ms_star_quote:
  assumes "in_ranges rs q = neg"
  shows "ms m (Seq (Repeat (CharSet neg rs) 0 None True) (Lit q)) (MState b a k) =
           (case close_quote (\<lambda>d. in_ranges rs d \<noteq> neg) q b a of
              None \<Rightarrow> []
            | Some (b', a') \<Rightarrow> [MState b' a' k])"
proof (induction a arbitrary: b)
  case Nil
  show ?case
    by (simp add: ms_star_step del: ms.simps(9))
next
  case (Cons d a)
  show ?case
  proof (cases "in_ranges rs d \<noteq> neg")
    case True
    with assms have "d \<noteq> q" by auto
    with True Cons[of "d # b"] show ?thesis
      by (simp add: ms_star_step del: ms.simps(9))
  next
    case False
    with assms show ?thesis
      by (simp add: ms_star_step del: ms.simps(9))
  qed
qed

lemma close_quote_append:
  "close_quote P q b a = Some (b', a') \<Longrightarrow> close_quote P q b (a @ t) = Some (b', a' @ t)"
  by (induction a arbitrary: b) (auto split: if_splits)

lemma skip_run_append:
  "skip_run P b a = (b', c # a') \<Longrightarrow> skip_run P b (a @ t) = (b', c # a' @ t)"
  by (induction a arbitrary: b) (auto split: if_splits)

lemma opens_withD:
  "opens_with P r \<Longrightarrow> ms m r x \<noteq> [] \<Longrightarrow> \<exists>d a. after x = d # a \<and> P d"
proof (induction P r arbitrary: x rule: opens_with.induct)
  case (1 P c)
  then show ?case by (cases "after x") (auto split: if_splits)
next
  case (2 P r1 r2)
  from "2.prems"(2) have "ms m r1 x \<noteq> []" by auto
  with 2 show ?case by simp
next
  case (3 P r1 r2)
  then show ?case by auto
next
  case (4 P i r)
  then show ?case by auto
qed simp_all

lemma ends_inD:
  "ends_in P r \<Longrightarrow> y \<in> set (ms m r x) \<Longrightarrow> \<exists>d b. before y = d # b \<and> P d"
proof (induction P r arbitrary: x y rule: ends_in.induct)
  case (1 P c)
  then show ?case by (cases "after x") (auto split: if_splits)
next
  case (2 P r1 r2)
  then show ?case by auto
next
  case (3 P r1 r2)
  then show ?case by auto
next
  case (4 P i r)
  from "4.prems"(2) obtain z where z: "z \<in> set (ms m r x)" "y = set_cap i x z"
    by auto
  from "4.IH"[OF _ z(1)] "4.prems"(1) obtain d b where "before z = d # b" "P d"
    by auto
  with z(2) show ?case
    by (cases x; cases z) auto
qed simp_all

lemma detI:
  assumes "\<And>x. length (ms m r x) \<le> 1"
    and "\<And>x t. ms m r x \<noteq> [] \<Longrightarrow> ms m r (ext t x) = map (ext t) (ms m r x)"
  shows "det m r"
  using assms unfolding det_def by blast

lemma det_length: "det m r \<Longrightarrow> length (ms m r x) \<le> 1"
  unfolding det_def by blast

lemma det_ext: "det m r \<Longrightarrow> ms m r x \<noteq> [] \<Longrightarrow> ms m r (ext t x) = map (ext t) (ms m r x)"
  unfolding det_def by blast

lemma det_Lit: "det m (Lit c)"
  by (rule detI) (auto simp: ext_def split: list.splits)

lemma det_LineStart: "det m LineStart"
  by (rule detI) (auto simp: ext_def split: list.splits)

lemma det_Seq:
  assumes "det m r1" and "det m r2"
  shows "det m (Seq r1 r2)"
proof (rule detI)
  fix x
  show "length (ms m (Seq r1 r2) x) \<le> 1"
  proof (cases "ms m r1 x")
    case Nil
    then show ?thesis by simp
  next
    case (Cons y ys)
    with det_length[OF assms(1), of x] have "ms m r1 x = [y]" by simp
    then show ?thesis
      using det_length[OF assms(2), of y] by simp
  qed
next
  fix x t
  assume ne: "ms m (Seq r1 r2) x \<noteq> []"
  then have "ms m r1 x \<noteq> []" by auto
  with det_length[OF assms(1), of x] obtain y where y: "ms m r1 x = [y]"
    by (cases "ms m r1 x") auto
  with ne have "ms m r2 y \<noteq> []" by simp
  then show "ms m (Seq r1 r2) (ext t x) = map (ext t) (ms m (Seq r1 r2) x)"
    using det_ext[OF assms(1), of x t] det_ext[OF assms(2), of y t] y by simp
qed

lemma det_Alt:
  assumes "det m r1" and "det m r2" and "opens_with P1 r1" and "opens_with P2 r2"
    and "\<And>d. P1 d \<Longrightarrow> P2 d \<Longrightarrow> False"
  shows "det m (Alt r1 r2)"
proof -
  have excl: "ms m r1 x = [] \<or> (ms m r2 x = [] \<and> ms m r2 (ext t x) = [])" for x t
  proof (cases "ms m r1 x = []")
    case False
    from opens_withD[OF assms(3) False] obtain d a where d: "after x = d # a" "P1 d"
      by blast
    then have "after (ext t x) = d # a @ t"
      by (simp add: ext_def)
    with d opens_withD[OF assms(4), of m x] opens_withD[OF assms(4), of m "ext t x"] assms(5)
    show ?thesis by fastforce
  qed simp
  have excl': "ms m r2 x = [] \<or> ms m r1 (ext t x) = []" for x t
  proof (cases "ms m r2 x = []")
    case False
    from opens_withD[OF assms(4) False] obtain d a where d: "after x = d # a" "P2 d"
      by blast
    then have "after (ext t x) = d # a @ t"
      by (simp add: ext_def)
    with d opens_withD[OF assms(3), of m "ext t x"] assms(5)
    show ?thesis by fastforce
  qed simp
  show ?thesis
  proof (rule detI)
    fix x
    show "length (ms m (Alt r1 r2) x) \<le> 1"
      using excl[of x "[]"] det_length[OF assms(1), of x] det_length[OF assms(2), of x] by auto
  next
    fix x t
    assume ne: "ms m (Alt r1 r2) x \<noteq> []"
    show "ms m (Alt r1 r2) (ext t x) = map (ext t) (ms m (Alt r1 r2) x)"
    proof (cases "ms m r1 x = []")
      case True
      with ne have "ms m r2 x \<noteq> []" by simp
      with excl'[of x t] det_ext[OF assms(2), of x t] True show ?thesis by simp
    next
      case False
      with excl[of x t] det_ext[OF assms(1), of x t] show ?thesis by simp
    qed
  qed
qed

lemma set_cap_ext: "set_cap i (ext t x) (ext t y) = ext t (set_cap i x y)"
  by (cases x; cases y) (simp add: ext_def)

lemma det_Group:
  assumes "det m r"
  shows "det m (Group i r)"
proof (rule detI)
  fix x
  show "length (ms m (Group i r) x) \<le> 1"
    using det_length[OF assms, of x] by simp
next
  fix x t
  assume "ms m (Group i r) x \<noteq> []"
  then have "ms m r x \<noteq> []" by simp
  from det_ext[OF assms this, of t]
  show "ms m (Group i r) (ext t x) = map (ext t) (ms m (Group i r) x)"
    by (simp add: set_cap_ext)
qed

lemma det_star_quote:
  assumes "in_ranges rs q = neg"
  shows "det m (Seq (Repeat (CharSet neg rs) 0 None True) (Lit q))"
proof (rule detI)
  fix x
  show "length (ms m (Seq (Repeat (CharSet neg rs) 0 None True) (Lit q)) x) \<le> 1"
    by (cases x) (simp add: ms_star_quote[OF assms] split: option.splits del: ms.simps)
next
  fix x t
  assume ne: "ms m (Seq (Repeat (CharSet neg rs) 0 None True) (Lit q)) x \<noteq> []"
  obtain b a k where x: "x = MState b a k" by (cases x)
  with ne obtain b' a' where c: "close_quote (\<lambda>d. in_ranges rs d \<noteq> neg) q b a = Some (b', a')"
    by (auto simp: ms_star_quote[OF assms] split: option.splits simp del: ms.simps)
  show "ms m (Seq (Repeat (CharSet neg rs) 0 None True) (Lit q)) (ext t x) =
          map (ext t) (ms m (Seq (Repeat (CharSet neg rs) 0 None True) (Lit q)) x)"
    using c close_quote_append[OF c, of t]
    by (simp add: x ext_def ms_star_quote[OF assms] del: ms.simps)
qed

lemma det_quoted: "in_ranges rs q = neg \<Longrightarrow> det m (quoted q (CharSet neg rs))"
  unfolding quoted_def by (intro det_Seq det_Lit det_star_quote)

lemma det_lits: "det m r \<Longrightarrow> det m (lits cs r)"
  unfolding lits_def by (induction cs) (simp_all add: det_Seq det_Lit)

lemma ms_star_then:
  assumes "\<And>y d a'. after y = d # a' \<Longrightarrow> in_ranges rs d \<noteq> neg \<Longrightarrow> ms m r y = []"
  shows "concat (map (ms m r) (ms m (Repeat (CharSet neg rs) 0 None True) (MState b a k))) =
           (case skip_run (\<lambda>d. in_ranges rs d \<noteq> neg) b a of (b', a') \<Rightarrow> ms m r (MState b' a' k))"
proof (induction a arbitrary: b)
  case Nil
  show ?case
    by (simp add: ms_star_step del: ms.simps(9))
next
  case (Cons d a)
  show ?case
  proof (cases "in_ranges rs d \<noteq> neg")
    case True
    then have "ms m r (MState b (d # a) k) = []"
      using assms[of "MState b (d # a) k" d a] by simp
    with True Cons[of "d # b"] show ?thesis
      by (simp add: ms_star_step del: ms.simps(9))
  next
    case False
    then show ?thesis
      by (simp add: ms_star_step del: ms.simps(9))
  qed
qed

lemma ms_plus_then:
  assumes "opens_with (\<lambda>d. in_ranges rs d = neg) r"
  shows "ms m (Seq (Repeat (CharSet neg rs) 1 None True) r) (MState b a k) =
           (case a of
              [] \<Rightarrow> []
            | d # a' \<Rightarrow>
                if in_ranges rs d \<noteq> neg
                then (case skip_run (\<lambda>d. in_ranges rs d \<noteq> neg) (d # b) a' of
                        (b', a'') \<Rightarrow> ms m r (MState b' a'' k))
                else [])"
proof -
  have guard: "ms m r y = []" if "after y = d # a'" "in_ranges rs d \<noteq> neg" for y d a'
    using opens_withD[OF assms, of m y] that by auto
  show ?thesis
    by (cases a) (simp_all add: ms_plus_step ms_star_then[OF guard] del: ms.simps(9) One_nat_def)
qed

lemma det_plus_then:
  assumes "det m r" and "opens_with (\<lambda>d. in_ranges rs d = neg) r"
  shows "det m (Seq (Repeat (CharSet neg rs) 1 None True) r)"
proof (rule detI)
  fix x
  show "length (ms m (Seq (Repeat (CharSet neg rs) 1 None True) r) x) \<le> 1"
    using det_length[OF assms(1)]
    by (cases x) (simp add: ms_plus_then[OF assms(2)] split: list.splits prod.splits del: ms.simps One_nat_def)
next
  fix x t
  assume ne: "ms m (Seq (Repeat (CharSet neg rs) 1 None True) r) x \<noteq> []"
  obtain b a k where x: "x = MState b a k" by (cases x)
  with ne obtain d a' b' a'' where
    a: "a = d # a'" "in_ranges rs d \<noteq> neg"
       "skip_run (\<lambda>d. in_ranges rs d \<noteq> neg) (d # b) a' = (b', a'')"
       "ms m r (MState b' a'' k) \<noteq> []"
    by (auto simp: ms_plus_then[OF assms(2)] split: list.splits prod.splits if_splits
             simp del: ms.simps One_nat_def)
  from opens_withD[OF assms(2) a(4)] obtain c a3 where c: "a'' = c # a3"
    by auto
  have "ms m r (MState b' (a'' @ t) k) = map (ext t) (ms m r (MState b' a'' k))"
    using det_ext[OF assms(1) a(4), of t] by (simp add: ext_def)
  then show "ms m (Seq (Repeat (CharSet neg rs) 1 None True) r) (ext t x) =
          map (ext t) (ms m (Seq (Repeat (CharSet neg rs) 1 None True) r) x)"
    using a(1,2,3) skip_run_append[OF a(3)[unfolded c], of t] c
    by (simp add: x ext_def ms_plus_then[OF assms(2)] del: ms.simps One_nat_def)
qed

lemma ms_whole:
  "y \<in> set (ms m r x) \<Longrightarrow> rev (before y) @ after y = rev (before x) @ after x"
proof (induction m r x arbitrary: y rule: ms.induct)
  case (1 m x)
  then show ?case by simp
next
  case (2 m d x)
  then show ?case by (cases "after x") (auto split: if_splits)
next
  case (3 m neg rs x)
  then show ?case by (cases "after x") (auto split: if_splits)
next
  case (4 m x)
  then show ?case by (cases "before x") (auto split: if_splits)
next
  case (5 m x)
  then show ?case by (cases "after x") (auto split: if_splits)
next
  case (6 m r1 r2 x)
  from "6.prems" obtain z where z: "z \<in> set (ms m r1 x)" "y \<in> set (ms m r2 z)"
    by auto
  show ?case
    using "6.IH"(1)[OF z(1)] "6.IH"(2)[OF z(1) z(2)] by simp
next
  case (7 m r1 r2 x)
  then show ?case by auto
next
  case (8 m i r x)
  from "8.prems" obtain z where z: "z \<in> set (ms m r x)" "y = set_cap i x z"
    by auto
  from "8.IH"[OF z(1)] z(2) show ?case
    by (cases x; cases z) simp
next
  case (9 m r mn mx g x)
  note ms.simps [simp del]
  let ?first = "ms m r (clear_caps (groups_in r) x)"
  let ?mx = "map_option (\<lambda>n. n - 1) mx"
  have cc: "rev (before (clear_caps gs x)) @ after (clear_caps gs x) = rev (before x) @ after x" for gs
    by (cases x) simp
  show ?case
  proof (cases "mx = Some 0")
    case True
    then show ?thesis
      using "9.prems" by (subst (asm) ms.simps(9)) simp
  next
    case nz: False
    show ?thesis
    proof (cases "mn = 0")
      case False
      from "9.prems" have "y \<in> set (concat (map (ms m (Repeat r (mn - 1) ?mx g)) ?first))"
        by (subst (asm) ms.simps(9)) (simp add: nz False)
      then obtain z where
        z: "z \<in> set ?first" "y \<in> set (ms m (Repeat r (mn - 1) ?mx g) z)"
        by auto
      show ?thesis
        using "9.IH"(1)[OF nz False z(1)] "9.IH"(2)[OF nz False z(1) z(2)] cc by simp
    next
      case True
      let ?rounds = "concat (map (\<lambda>y. if length (after y) < length (after x)
                        then ms m (Repeat r 0 ?mx g) y else []) ?first)"
      from "9.prems" have "y \<in> set (if g then ?rounds @ [x] else x # ?rounds)"
        by (subst (asm) ms.simps(9)) (simp add: nz True)
      then have "y = x \<or> y \<in> set ?rounds"
        by (cases g) auto
      then show ?thesis
      proof
        assume "y = x"
        then show ?thesis by simp
      next
        assume "y \<in> set ?rounds"
        then obtain z where
          z: "z \<in> set ?first" "length (after z) < length (after x)"
             "y \<in> set (ms m (Repeat r 0 ?mx g) z)"
          by (auto split: if_splits)
        show ?thesis
        proof (cases g)
          case g: True
          show ?thesis
            using "9.IH"(3)[OF nz _ g z(1)] "9.IH"(4)[OF nz _ g z(1) z(2) z(3)] True cc by simp
        next
          case g: False
          show ?thesis
            using "9.IH"(5)[OF nz _ g z(1)] "9.IH"(6)[OF nz _ g z(1) z(2) z(3)] True cc by simp
        qed
      qed
    qed
  qed
qed

lemma pos_MState [simp]: "pos (MState b a k) = (b, a)"
  by (simp add: pos_def)

lemma pos_clear_caps [simp]: "pos (clear_caps gs x) = pos x"
  by (cases x) simp

lemma pos_set_cap [simp]: "pos (set_cap i x y) = pos y"
  by (cases x; cases y) simp

lemma pos_eq_iff: "pos x' = pos x \<longleftrightarrow> before x' = before x \<and> after x' = after x"
  by (simp add: pos_def)

lemma map_pos_concat:
  assumes "map pos ys' = map pos ys"
    and "\<And>y y'. y \<in> set ys \<Longrightarrow> pos y' = pos y \<Longrightarrow> map pos (f' y') = map pos (f y)"
  shows "map pos (concat (map f' ys')) = map pos (concat (map f ys))"
  using assms
proof (induction ys arbitrary: ys')
  case Nil
  then show ?case by simp
next
  case (Cons y ys)
  from Cons.prems(1) obtain y' ys'' where ys': "ys' = y' # ys''" "pos y' = pos y"
    "map pos ys'' = map pos ys"
    by (cases ys') auto
  have "map pos (f' y') = map pos (f y)"
    using Cons.prems(2)[of y y'] ys'(2) by simp
  moreover have "map pos (concat (map f' ys'')) = map pos (concat (map f ys))"
    using Cons.IH[OF ys'(3)] Cons.prems(2) by simp
  ultimately show ?case
    by (simp add: ys'(1))
qed

lemma ms_strip: "pos x' = pos x \<Longrightarrow> map pos (ms m (strip r) x') = map pos (ms m r x)"
proof (induction m r x arbitrary: x' rule: ms.induct)
  case (1 m x)
  then show ?case by simp
next
  case (2 m c x)
  then show ?case
    by (cases x; cases x') (auto split: list.splits)
next
  case (3 m neg rs x)
  then show ?case
    by (cases x; cases x') (auto split: list.splits)
next
  case (4 m x)
  then show ?case
    by (cases x; cases x') (auto split: list.splits)
next
  case (5 m x)
  then show ?case
    by (cases x; cases x') (auto split: list.splits)
next
  case (6 m r1 r2 x)
  have "map pos (concat (map (ms m (strip r2)) (ms m (strip r1) x'))) =
        map pos (concat (map (ms m r2) (ms m r1 x)))"
    using "6.IH"(2) by (intro map_pos_concat "6.IH"(1)[OF "6.prems"]) simp
  then show ?case by simp
next
  case (7 m r1 r2 x)
  then show ?case by simp
next
  case (8 m i r x)
  then show ?case by (simp add: comp_def)
next
  case (9 m r mn mx g x)
  note ms.simps [simp del]
  note L = ms.simps(9)[of m "strip r" mn mx g x'] and R = ms.simps(9)[of m r mn mx g x]
  let ?mx = "map_option (\<lambda>n. n - 1) mx"
  have px: "pos (clear_caps (groups_in (strip r)) x') = pos (clear_caps (groups_in r) x)"
    using "9.prems" by simp
  have ax: "after x' = after x"
    using "9.prems" by (simp add: pos_eq_iff)
  show ?case
  proof (cases "mx = Some 0")
    case True
    then show ?thesis
      unfolding strip.simps L R using "9.prems" by simp
  next
    case nz: False
    show ?thesis
    proof (cases "mn = 0")
      case False
      have "map pos (concat (map (ms m (Repeat (strip r) (mn - 1) ?mx g))
                                 (ms m (strip r) (clear_caps (groups_in (strip r)) x')))) =
            map pos (concat (map (ms m (Repeat r (mn - 1) ?mx g))
                                 (ms m r (clear_caps (groups_in r) x))))"
        using "9.IH"(2)[OF nz False]
        by (intro map_pos_concat "9.IH"(1)[OF nz False px]) simp
      then show ?thesis
        unfolding strip.simps L R using nz False by simp
    next
      case True
      then have nn: "\<not> mn \<noteq> 0" by simp
      have rounds:
        "map pos (concat (map (\<lambda>y. if length (after y) < length (after x')
                                     then ms m (Repeat (strip r) 0 ?mx g) y else [])
                              (ms m (strip r) (clear_caps (groups_in (strip r)) x')))) =
         map pos (concat (map (\<lambda>y. if length (after y) < length (after x)
                                     then ms m (Repeat r 0 ?mx g) y else [])
                              (ms m r (clear_caps (groups_in r) x))))"
      proof (cases g)
        case g: True
        show ?thesis
          using "9.IH"(4)[OF nz nn g]
          by (intro map_pos_concat "9.IH"(3)[OF nz nn g px]) (simp add: ax pos_eq_iff)
      next
        case g: False
        show ?thesis
          using "9.IH"(6)[OF nz nn g]
          by (intro map_pos_concat "9.IH"(5)[OF nz nn g px]) (simp add: ax pos_eq_iff)
      qed
      show ?thesis
        unfolding strip.simps L R using nz True rounds "9.prems" by simp
    qed
  qed
qed

lemma decode_Nil_iff: "decode s = [] \<longleftrightarrow> s = []"
  by (induction s rule: decode.induct) auto

lemma decode_append:
  "e = [] \<or> \<not> (0xD800 \<le> last e \<and> last e \<le> 0xDBFF) \<Longrightarrow> decode (e @ t) = decode e @ decode t"
proof (induction e rule: decode.induct)
  case (1 a b cs)
  then show ?case by (cases cs) (auto split: if_splits)
qed (simp, cases t, auto)

lemma decode_last:
  "decode e \<noteq> [] \<Longrightarrow> last (decode e) < 0xD800 \<Longrightarrow> e \<noteq> [] \<and> last e = last (decode e)"
proof (induction e rule: decode.induct)
  case (1 a b cs)
  then show ?case by (cases cs) (auto simp: decode_Nil_iff split: if_splits)
qed simp_all

lemma encode_decode: "list_all (\<lambda>c. c \<le> 0xFFFF) s \<Longrightarrow> encode (decode s) = s"
proof (induction s rule: decode.induct)
  case (1 a b cs)
  show ?case
  proof (cases "0xD800 \<le> a \<and> a \<le> 0xDBFF \<and> 0xDC00 \<le> b \<and> b \<le> 0xDFFF")
    case True
    define h where "h = a - 0xD800"
    define l where "l = b - 0xDC00"
    have a: "a = 0xD800 + h" and b: "b = 0xDC00 + l" and l: "l < 0x400"
      using True by (auto simp: h_def l_def)
    have "(h * 0x400 + l) div 0x400 = h" "(h * 0x400 + l) mod 0x400 = l"
      using l by simp_all
    then show ?thesis
      using 1 True unfolding a b by simp
  next
    case False
    with 1 show ?thesis by auto
  qed
qed simp_all

lemma strip_lits: "strip (lits cs r) = lits cs (strip r)"
  unfolding lits_def by (induction cs) simp_all

lemma opens_with_lits: "opens_with P (lits (c # cs) r) = P c"
  by (simp add: lits_def)

lemma ends_in_lits: "ends_in P (lits cs r) = ends_in P r"
  unfolding lits_def by (induction cs) simp_all

lemma det_SystemLiteral: "det m SystemLiteral_ast"
  unfolding SystemLiteral_ast_def
  by (rule det_Alt[where ?P1.0 = "\<lambda>d. d = 0x22" and ?P2.0 = "\<lambda>d. d = 0x27"])
     (simp_all add: det_quoted, simp_all add: quoted_def)

lemma det_PubidLiteral: "det m PubidLiteral_ast"
  unfolding PubidLiteral_ast_def
  by (rule det_Alt[where ?P1.0 = "\<lambda>d. d = 0x22" and ?P2.0 = "\<lambda>d. d = 0x27"])
     (simp_all add: det_quoted PubidChar_ranges_def PubidChar_noquote_ranges_def,
      simp_all add: quoted_def)

lemma opens_with_mono: "opens_with P r \<Longrightarrow> (\<And>d. P d \<Longrightarrow> Q d) \<Longrightarrow> opens_with Q r"
  by (induction P r rule: opens_with.induct) auto

lemma det_S_then:
  assumes "det m r" and "opens_with (\<lambda>d. d = 0x22 \<or> d = 0x27) r"
  shows "det m (Seq S_ast r)"
proof -
  have "opens_with (\<lambda>d. in_ranges SChar_ranges d = False) r"
    by (rule opens_with_mono[OF assms(2)]) (auto simp: SChar_ranges_def)
  then show ?thesis
    unfolding S_ast_def by (rule det_plus_then[OF assms(1)])
qed

lemma opens_with_literals:
  "opens_with (\<lambda>d. d = 0x22 \<or> d = 0x27) SystemLiteral_ast"
  "opens_with (\<lambda>d. d = 0x22 \<or> d = 0x27) PubidLiteral_ast"
  by (simp_all add: SystemLiteral_ast_def PubidLiteral_ast_def quoted_def)

lemma ends_in_literals:
  "ends_in (\<lambda>d. d = 0x22 \<or> d = 0x27) SystemLiteral_ast"
  "ends_in (\<lambda>d. d = 0x22 \<or> d = 0x27) PubidLiteral_ast"
  by (simp_all add: SystemLiteral_ast_def PubidLiteral_ast_def quoted_def)

lemma det_ExternalID_system: "det m ExternalID_system_ast"
  unfolding ExternalID_system_ast_def
  by (intro det_lits det_S_then det_Group det_SystemLiteral) (simp add: opens_with_literals)

lemma det_ExternalID_public: "det m ExternalID_public_ast"
  unfolding ExternalID_public_ast_def
  by (intro det_lits det_S_then det_Seq det_Group det_SystemLiteral det_PubidLiteral)
     (simp_all add: opens_with_literals)

lemma det_ExternalID_match: "det m (Alt ExternalID_system_ast ExternalID_public_ast)"
  by (rule det_Alt[where ?P1.0 = "\<lambda>d. d = 0x53" and ?P2.0 = "\<lambda>d. d = 0x50"])
     (simp_all add: det_ExternalID_system det_ExternalID_public,
      simp_all add: ExternalID_system_ast_def ExternalID_public_ast_def SYSTEM_def PUBLIC_def
        js_def opens_with_lits)

lemma strip_ExternalID_match:
  "strip (Alt ExternalID_system_ast ExternalID_public_ast) = ExternalID_ast"
  by (simp add: ExternalID_system_ast_def ExternalID_public_ast_def ExternalID_ast_def strip_lits
        S_ast_def SystemLiteral_ast_def PubidLiteral_ast_def quoted_def)

lemma ends_in_ExternalID_match:
  "ends_in (\<lambda>d. d = 0x22 \<or> d = 0x27) (Alt ExternalID_system_ast ExternalID_public_ast)"
  by (simp add: ExternalID_system_ast_def ExternalID_public_ast_def ends_in_lits ends_in_literals)


subsection \<open>\<^verbatim>\<open>ExternalID_match\<close> on an input with trailing text\<close>

lemma ms_LineStart_first: "ms m (Seq LineStart r) (MState [] a k) = ms m r (MState [] a k)"
  by simp

lemma ExternalID_match_state:
  assumes "y' \<in> set (ms True ExternalID_ast (MState [] a k))" and "after y' = []"
  shows "\<exists>y. ms True ExternalID_match_ast (MState [] a k) = [y] \<and> rev (before y) = a
           \<and> a \<noteq> [] \<and> last a < 0xD800"
proof -
  let ?x = "MState [] a k"
  let ?r = "Alt ExternalID_system_ast ExternalID_public_ast"
  have "map pos (ms True (strip ?r) ?x) = map pos (ms True ?r ?x)"
    by (rule ms_strip) simp
  then have "map pos (ms True ExternalID_ast ?x) = map pos (ms True ?r ?x)"
    by (simp only: strip_ExternalID_match)
  then have "pos y' \<in> pos ` set (ms True ?r ?x)"
    using assms(1) by (metis image_eqI list.set_map)
  then obtain y where y: "y \<in> set (ms True ?r ?x)" "after y = []"
    using assms(2) by (auto simp: pos_def simp del: ms.simps)
  have "ms True ?r ?x = [y]"
    using det_length[OF det_ExternalID_match, of True ?x] y(1)
    by (cases "ms True ?r ?x") (auto simp del: ms.simps)
  then have 1: "ms True ExternalID_match_ast ?x = [y]"
    unfolding ExternalID_match_ast_def by (simp only: ms_LineStart_first)
  have 2: "rev (before y) = a"
    using ms_whole[OF y(1)] y(2) by simp
  from ends_inD[OF ends_in_ExternalID_match y(1)] obtain d b where
    d: "before y = d # b" "d = 0x22 \<or> d = 0x27"
    by blast
  from 2 d(1) have "a = rev b @ [d]"
    by simp
  with d(2) have "a \<noteq> [] \<and> last a < 0xD800"
    by auto
  with 1 2 show ?thesis by blast
qed

lemma find_match_first: "ms m r (MState [] a (\<lambda>i. None)) = [y] \<Longrightarrow> find_match m r [] a = Some ([], y)"
  by (subst find_match.simps) (simp del: ms.simps)

lemma ext_sel: "before (ext t y) = before y" "caps (ext t y) = caps y"
  by (simp_all add: ext_def)

lemma to_string_Nil: "to_string u [] = []"
  by (simp add: to_string_def)

lemma ExternalID_match_exec:
  assumes "ms True ExternalID_match_ast (MState [] (if u then decode s else s) (\<lambda>i. None)) = [y]"
  shows "exec_production (ExternalID_match u) s =
           Inr (Some \<lparr>index = 0,
                      matched = to_string u (rev (before y)),
                      captures = map (\<lambda>i. map_option (to_string u) (caps y i))
                                   (groups_in ExternalID_match_ast),
                      groups = (\<lambda>nm. case map_of ExternalID_match_names nm of
                                        None \<Rightarrow> None
                                      | Some i \<Rightarrow> map_option (to_string u) (caps y i))\<rparr>)"
  using find_match_first[OF assms]
  by (cases u)
     (simp_all add: exec_production_def bindE_def ExternalID_match_value regexp_exec_def
        ExternalID_match_compiled to_string_Nil del: ms.simps find_match.simps
        cong: option.case_cong)

text \<open>
  A string that begins with a well-formed \<^verbatim>\<open>ExternalID\<close>: the match is at index 0 and is
  the match on the \<^verbatim>\<open>ExternalID\<close> alone, whatever follows.
\<close>

lemma ExternalID_match_on_prefix:
  assumes "whole_production (ExternalID u) e"
  shows "\<exists>mt. exec_production (ExternalID_match u) (e @ t) = Inr (Some mt)
            \<and> exec_production (ExternalID_match u) e = Inr (Some mt)
            \<and> index mt = 0
            \<and> (list_all (\<lambda>c. c \<le> 0xFFFF) e \<longrightarrow> matched mt = e)"
proof -
  let ?dec = "\<lambda>s. if u then decode s else s"
  let ?k = "\<lambda>i. None :: nat list option"
  have "matches_whole \<lparr>source = ExternalID_text, flags = (if u then ''mu'' else ''m'')\<rparr> e"
    using assms by (simp add: whole_production_def ExternalID_value)
  then have "list_ex (\<lambda>y. after y = []) (ms True ExternalID_ast (MState [] (?dec e) ?k))"
    by (cases u) (simp_all add: matches_whole_def ExternalID_compiled del: ms.simps)
  then obtain y' where "y' \<in> set (ms True ExternalID_ast (MState [] (?dec e) ?k))" "after y' = []"
    by (auto simp: list_ex_iff simp del: ms.simps)
  from ExternalID_match_state[OF this] obtain y where
    y: "ms True ExternalID_match_ast (MState [] (?dec e) ?k) = [y]" "rev (before y) = ?dec e"
       "?dec e \<noteq> []" "last (?dec e) < 0xD800"
    by blast
  have "e = [] \<or> \<not> (0xD800 \<le> last e \<and> last e \<le> 0xDBFF)" if u
    using decode_last[of e] y(3,4) that by auto
  then have dec: "?dec (e @ t) = ?dec e @ ?dec t"
    by (simp add: decode_append)
  have "ms True ExternalID_match_ast (ext (?dec t) (MState [] (?dec e) ?k)) = [ext (?dec t) y]"
    using det_ext[OF det_Seq[OF det_LineStart det_ExternalID_match], of True
                    "MState [] (?dec e) ?k" "?dec t"]
    unfolding ExternalID_match_ast_def[symmetric] y(1) by simp
  then have yt: "ms True ExternalID_match_ast (MState [] (?dec (e @ t)) ?k) = [ext (?dec t) y]"
    unfolding dec by (simp add: ext_def)
  let ?mt = "\<lparr>index = 0, matched = to_string u (rev (before y)),
              captures = map (\<lambda>i. map_option (to_string u) (caps y i))
                           (groups_in ExternalID_match_ast),
              groups = (\<lambda>nm. case map_of ExternalID_match_names nm of
                                None \<Rightarrow> None
                              | Some i \<Rightarrow> map_option (to_string u) (caps y i))\<rparr>"
  have "exec_production (ExternalID_match u) e = Inr (Some ?mt)"
    by (rule ExternalID_match_exec[OF y(1)])
  moreover have "exec_production (ExternalID_match u) (e @ t) = Inr (Some ?mt)"
    using ExternalID_match_exec[OF yt] by (simp only: ext_sel)
  moreover have "matched ?mt = e" if "list_all (\<lambda>c. c \<le> 0xFFFF) e"
    using that y(2) by (simp add: to_string_def encode_decode)
  ultimately show ?thesis
    by (intro exI[of _ ?mt]) simp
qed

text \<open>
  The anchor \<^verbatim>\<open>^\<close> is read with the multiline flag that \<^verbatim>\<open>reg\<close> sets: it holds at the start
  of the input and after a line terminator, and nowhere else.
\<close>

lemma encode_append: "encode (xs @ ys) = encode xs @ encode ys"
  by (induction xs) auto

lemma find_match_split:
  "find_match m r b a = Some (b', y) \<Longrightarrow>
     \<exists>a'. ms m r (MState b' a' (\<lambda>i. None)) \<noteq> [] \<and> rev b' @ a' = rev b @ a"
proof (induction m r b a rule: find_match.induct)
  case (1 m r b a)
  show ?case
  proof (cases "ms m r (MState b a (\<lambda>i. None))")
    case Nil
    with "1.prems" obtain d a' where d: "a = d # a'" "find_match m r (d # b) a' = Some (b', y)"
      by (subst (asm) find_match.simps) (auto split: list.splits)
    from "1.IH"[OF Nil d] show ?thesis
      using d(1) by simp
  next
    case (Cons z zs)
    with "1.prems" have "b' = b"
      by (subst (asm) find_match.simps) simp
    with Cons show ?thesis
      by (intro exI[of _ a]) simp
  qed
qed

lemma ms_LineStart_only:
  assumes "ms m (Seq LineStart r) x \<noteq> []"
  shows "before x = [] \<or> (\<exists>d b. before x = d # b \<and> is_line_terminator d)"
proof (cases "before x")
  case Nil
  then show ?thesis by simp
next
  case (Cons d b)
  have "is_line_terminator d"
  proof (rule ccontr)
    assume "\<not> is_line_terminator d"
    with Cons have "ms m LineStart x = []" by simp
    with assms show False by simp
  qed
  with Cons show ?thesis by simp
qed

lemma ExternalID_match_line_anchor:
  assumes "list_all (\<lambda>c. c \<le> 0xFFFF) s"
    and "exec_production (ExternalID_match u) s = Inr (Some mt)"
  shows "index mt = 0
         \<or> (0 < index mt \<and> index mt \<le> length s \<and> is_line_terminator (s ! (index mt - 1)))"
proof -
  let ?a = "if u then decode s else s"
  from assms(2) obtain b y where
    f: "find_match True ExternalID_match_ast [] ?a = Some (b, y)" and
    i: "index mt = length (to_string u (rev b))"
    by (cases u)
       (auto simp: exec_production_def bindE_def ExternalID_match_value regexp_exec_def
          ExternalID_match_compiled split: option.splits simp del: ms.simps find_match.simps)
  from find_match_split[OF f] obtain a' where
    a': "ms True ExternalID_match_ast (MState b a' (\<lambda>i. None)) \<noteq> []" "rev b @ a' = ?a"
    by auto
  from a'(1) have "b = [] \<or> (\<exists>d b'. b = d # b' \<and> is_line_terminator d)"
    unfolding ExternalID_match_ast_def using ms_LineStart_only by fastforce
  then show ?thesis
  proof (elim disjE exE conjE)
    assume "b = []"
    then show ?thesis
      using i by (simp add: to_string_Nil)
  next
    fix d b'
    assume b: "b = d # b'" and lt: "is_line_terminator d"
    have d: "d \<le> 0xFFFF"
      using lt by (auto simp: is_line_terminator_def)
    have "s = to_string u (rev b') @ d # to_string u a'"
    proof (cases u)
      case True
      have "s = encode (decode s)"
        using assms(1) by (simp add: encode_decode)
      also have "decode s = rev b' @ d # a'"
        using a'(2) b True by simp
      finally show ?thesis
        using True d by (simp add: to_string_def encode_append)
    next
      case False
      then show ?thesis
        using a'(2) b by (simp add: to_string_def)
    qed
    moreover have "index mt = Suc (length (to_string u (rev b')))"
      using i b d by (simp add: to_string_def encode_append)
    ultimately obtain pre post where "s = pre @ d # post" "index mt = Suc (length pre)"
      by blast
    with lt show ?thesis
      by simp
  qed
qed

lemma ExternalID_match_line_start:
  "\<exists>mt. exec_production (ExternalID_match u) ([0x0A] @ js ''SYSTEM '' @ dq ''x.dtd'') = Inr (Some mt)
       \<and> index mt = 1 \<and> matched mt = js ''SYSTEM '' @ dq ''x.dtd''"
  by (cases u)
     (simp_all add: ExternalID_match_value ExternalID_match_compiled exec_defs)

text \<open>
  Claim C10 (amended). \<^verbatim>\<open>ExternalID_match\<close> has no anchor at the end, and its anchor \<^verbatim>\<open>^\<close> is
  compiled with the multiline flag. For every string \<open>e @ t\<close> that begins with a well-formed
  \<^verbatim>\<open>ExternalID\<close> \<open>e\<close> (a string that the production \<^verbatim>\<open>ExternalID\<close> matches in full),
  \<^verbatim>\<open>ExternalID_match.exec\<close> succeeds whatever the trailing text \<open>t\<close> is, at index 0, and its
  result, the named groups included, is the result on \<open>e\<close> alone: the groups are taken
  from the leading \<^verbatim>\<open>ExternalID\<close>; the matched text is \<open>e\<close> itself when \<open>e\<close> is a sequence of
  16-bit code units. On any input (a sequence of 16-bit code units) a match starts at the
  start of the input or directly after a line terminator, and nowhere else. It does
  start after a line terminator: on a line feed followed by \<^verbatim>\<open>SYSTEM "x.dtd"\<close> the match is
  at index 1.
\<close>

theorem ExternalID_match_trailing_text:
  "(whole_production (ExternalID u) e \<longrightarrow>
      (\<exists>mt. exec_production (ExternalID_match u) (e @ t) = Inr (Some mt)
          \<and> exec_production (ExternalID_match u) e = Inr (Some mt)
          \<and> index mt = 0
          \<and> (list_all (\<lambda>c. c \<le> 0xFFFF) e \<longrightarrow> matched mt = e)))
   \<and> (\<forall>mt. list_all (\<lambda>c. c \<le> 0xFFFF) s \<and> exec_production (ExternalID_match u) s = Inr (Some mt) \<longrightarrow>
         index mt = 0
         \<or> (0 < index mt \<and> index mt \<le> length s \<and> is_line_terminator (s ! (index mt - 1))))
   \<and> (\<exists>mt. exec_production (ExternalID_match u) ([0x0A] @ js ''SYSTEM '' @ dq ''x.dtd'')
               = Inr (Some mt)
          \<and> index mt = 1 \<and> matched mt = js ''SYSTEM '' @ dq ''x.dtd'')"
  using ExternalID_match_on_prefix[of u e t] ExternalID_match_line_anchor[of s u]
    ExternalID_match_line_start[of u]
  by blast

theorem ExternalID_match_trailing_text_witness:
  "whole_production (ExternalID True) (js ''SYSTEM '' @ dq ''x.dtd'')
   \<and> (\<exists>mt. exec_production (ExternalID_match True)
               ((js ''SYSTEM '' @ dq ''x.dtd'') @ js '' [<!ELEMENT a ANY>]>'') = Inr (Some mt)
          \<and> index mt = 0
          \<and> list_all (\<lambda>c. c \<le> 0xFFFF) (js ''SYSTEM '' @ dq ''x.dtd'')
          \<and> matched mt = js ''SYSTEM '' @ dq ''x.dtd'')
   \<and> list_all (\<lambda>c. c \<le> 0xFFFF) (js ''junk'' @ [0x0A] @ js ''SYSTEM '' @ dq ''x.dtd'')
   \<and> (\<exists>mt. exec_production (ExternalID_match True)
               (js ''junk'' @ [0x0A] @ js ''SYSTEM '' @ dq ''x.dtd'') = Inr (Some mt)
          \<and> index mt = 5
          \<and> is_line_terminator
               ((js ''junk'' @ [0x0A] @ js ''SYSTEM '' @ dq ''x.dtd'') ! (index mt - 1)))"
proof -
  let ?e = "js ''SYSTEM '' @ dq ''x.dtd''"
  let ?s = "js ''junk'' @ [0x0A] @ js ''SYSTEM '' @ dq ''x.dtd''"
  have w: "whole_production (ExternalID True) ?e"
    by (simp add: whole_production_def matches_whole_def ExternalID_value ExternalID_compiled
          ExternalID_ast_def externalid_asts externalid_token_defs SYSTEM_def PUBLIC_def dq_def
          js_def)
  have ve: "list_all (\<lambda>c. c \<le> 0xFFFF) ?e" and vs: "list_all (\<lambda>c. c \<le> 0xFFFF) ?s"
    by (simp_all add: dq_def js_def)
  have "\<exists>mt. exec_production (ExternalID_match True) ?s = Inr (Some mt) \<and> index mt = 5"
    by (simp add: ExternalID_match_value ExternalID_match_compiled exec_defs)
  then obtain mt where mt: "exec_production (ExternalID_match True) ?s = Inr (Some mt)" "index mt = 5"
    by blast
  from ExternalID_match_trailing_text[of True ?e "js '' [<!ELEMENT a ANY>]>''" ?s] w ve vs mt
  have "\<exists>m0. exec_production (ExternalID_match True) (?e @ js '' [<!ELEMENT a ANY>]>'') = Inr (Some m0)
          \<and> index m0 = 0 \<and> matched m0 = ?e"
    and "is_line_terminator (?s ! (index mt - 1))"
    by auto
  with w ve vs mt show ?thesis
    by blast
qed

text \<open>
  The claim as stated fails: the pattern is not anchored at the start of the input only.
  The input \<^verbatim>\<open>junk\<close>, line feed, \<^verbatim>\<open>SYSTEM "x.dtd"\<close> does not begin with an \<^verbatim>\<open>ExternalID\<close>, and
  \<^verbatim>\<open>ExternalID_match\<close> matches in it, at index 5.
\<close>

theorem ExternalID_match_later_line_counterexample:
  "(case exec_production (ExternalID_match True)
           (js ''junk'' @ [0x0A] @ js ''SYSTEM '' @ dq ''x.dtd'') of
      Inr (Some mt) \<Rightarrow> index mt = 5 \<and> matched mt = js ''SYSTEM '' @ dq ''x.dtd''
    | _ \<Rightarrow> False)
   \<and> (case exec_production (ExternalID_match False)
           (js ''junk'' @ [0x0A] @ js ''SYSTEM '' @ dq ''x.dtd'') of
      Inr (Some mt) \<Rightarrow> index mt = 5 \<and> matched mt = js ''SYSTEM '' @ dq ''x.dtd''
    | _ \<Rightarrow> False)"
  by (simp add: ExternalID_match_value ExternalID_match_compiled exec_defs)

end
